theory Spec2Isabelle
  imports Main "HOL-Library.Sublist" "HOL-Library.Multiset" "HOL-Library.Word" "HOL-Library.AList"
begin

section \<open>Transaction insert statements (db/dcrpg/internal/txstmts.go)\<close>






subsection \<open>Reading a statement text\<close>







fun find_after :: "string \<Rightarrow> string \<Rightarrow> string option" where
  "find_after p [] = (if p = [] then Some [] else None)"
| "find_after p (x # xs) =
     (if prefix p (x # xs) then Some (drop (length p) (x # xs)) else find_after p xs)"



section \<open>Address UTXO query (db/dcrpg/queries.go)\<close>

text \<open>
  Go's \<open>int64\<close> and \<open>uint32\<close> are words, so \<open>+\<close> and \<open>-\<close> wrap as in Go.
  \<open>hex.EncodeToString\<close> writes two lower-case hex digits per byte.
  A row of the result set is what \<open>rows.Scan\<close> leaves in its destinations; a failed
  scan is only logged and the row is used all the same. \<open>dcrutil.Amount.ToCoin\<close>
  (a float conversion of an external library) is a parameter.
\<close>

type_synonym int64 = "64 word"
type_synonym uint32 = "32 word"
type_synonym byte = "8 word"

definition hextable :: string where
  "hextable = ''0123456789abcdef''"

definition EncodeToString :: "byte list \<Rightarrow> string" where
  "EncodeToString src =
     concat (map (\<lambda>v. [hextable ! unat (drop_bit 4 v), hextable ! unat (and v 0x0f)]) src)"

record utxo_row =
  col_address :: string
  col_tx_hash :: string
  col_atoms :: int64
  col_block_height :: int64
  col_block_time :: int64
  col_vout :: uint32
  col_pkScript :: "byte list"
  scan_failed :: bool

datatype 'e utxo_query = PrepareFailed 'e | QueryFailed 'e | Rows "utxo_row list"

record 'c AddressTxnOutput =
  Address :: string
  TxnID :: string
  Vout :: uint32
  ScriptPubKey :: string
  Height :: int64
  Amount :: 'c
  Satoshis :: int64
  Confirmations :: int64

definition scan_output :: "(int64 \<Rightarrow> 'c) \<Rightarrow> int64 \<Rightarrow> utxo_row \<Rightarrow> 'c AddressTxnOutput" where
  "scan_output ToCoin currentBlockHeight r =
     (let pkScript = col_pkScript r;
          blockHeight = col_block_height r;
          atoms = col_atoms r
      in \<lparr> Address = col_address r, TxnID = col_tx_hash r, Vout = col_vout r,
           ScriptPubKey = EncodeToString pkScript,
           Height = blockHeight,
           Amount = ToCoin atoms,
           Satoshis = atoms,
           Confirmations = currentBlockHeight - blockHeight + 1 \<rparr>)"

definition RetrieveAddressUTXOs ::
  "(int64 \<Rightarrow> 'c) \<Rightarrow> (string \<Rightarrow> 'e utxo_query) \<Rightarrow> string \<Rightarrow> int64 \<Rightarrow> 'e + 'c AddressTxnOutput list" where
  "RetrieveAddressUTXOs ToCoin db address currentBlockHeight =
     (case db address of
        PrepareFailed err \<Rightarrow> Inl err
      | QueryFailed err \<Rightarrow> Inl err
      | Rows rows \<Rightarrow> Inr (map (scan_output ToCoin currentBlockHeight) rows))"

definition utxo_row_example :: utxo_row where
  "utxo_row_example = \<lparr> col_address = ''DsExampleAddress'', col_tx_hash = ''ab'', col_atoms = 100,
      col_block_height = 100, col_block_time = 0, col_vout = 1, col_pkScript = [0x76, 0xa9],
      scan_failed = False \<rparr>"


section \<open>Stake database and lite-mode sync (db/dcrsqlite/sync.go)\<close>

text \<open>
  Heights are Go \<open>int64\<close> values (\<open>uint32\<close> inside the stake database); they are block
  heights, far from the ends of the \<open>int64\<close> range, and are modelled as \<open>int\<close> and
  \<open>nat\<close>. Everything the functions ask of the outside world (the context, the node,
  the stores) is answered by an environment of oracles. In the block loop the height
  \<open>i\<close> only grows, so each oracle is asked at most once per height and is indexed by
  it; in the rewind the stake database height only falls, and the oracles are indexed by
  that height. Log lines and progress-bar events are left out; \<open>fmt.Println\<close> output
  is kept.
\<close>

record StakeDatabase =
  sdb_height :: nat

datatype phase = AtStart | AtEnd

record 'e sync_env =
  ctx_Done_rewind :: "nat \<Rightarrow> bool"
  DisconnectBlock_err :: "nat \<Rightarrow> 'e option"
  GetBestBlock_first :: "'e + int"
  GetBlockSummaryHeight_err :: "phase \<Rightarrow> 'e option"
  GetStakeInfoHeight_err :: "phase \<Rightarrow> 'e option"
  ctx_Done_top :: "int \<Rightarrow> bool"
  getBlock_err :: "int \<Rightarrow> 'e option"
  ctx_Done_wait :: "int \<Rightarrow> bool"
  blockGetter_Block_err :: "int \<Rightarrow> 'e option"
  ConnectBlock_err :: "int \<Rightarrow> 'e option"
  GetBestBlock_loop :: "int \<Rightarrow> 'e + int"
  StoreBlockSummary_err :: "int \<Rightarrow> 'e option"
  FeeRateInfoBlock_nil :: "int \<Rightarrow> bool"
  StoreStakeInfoExtended_err :: "int \<Rightarrow> 'e option"

datatype 'e sdb_error = NoBlockToDisconnect | StakeDBError 'e

text \<open>
  Modelled from the spec: the stake database (package \<open>stakedb\<close>) is not among the
  sources. Section 4.2: \<open>connect(block)\<close> advances by one block, \<open>disconnect()\<close>
  rewinds by one block, \<open>height()\<close> reads the current height. Either can fail; at
  height 0 there is no block to rewind.
\<close>

definition DisconnectBlock :: "'e sync_env \<Rightarrow> StakeDatabase \<Rightarrow> 'e sdb_error + StakeDatabase" where
  "DisconnectBlock env s =
     (case sdb_height s of
        0 \<Rightarrow> Inl NoBlockToDisconnect
      | Suc h \<Rightarrow>
          (case DisconnectBlock_err env (Suc h) of
             Some e \<Rightarrow> Inl (StakeDBError e)
           | None \<Rightarrow> Inr (s\<lparr>sdb_height := h\<rparr>)))"

definition ConnectBlock :: "'e sync_env \<Rightarrow> int \<Rightarrow> StakeDatabase \<Rightarrow> 'e + StakeDatabase" where
  "ConnectBlock env i s =
     (case ConnectBlock_err env i of
        Some e \<Rightarrow> Inl e
      | None \<Rightarrow> Inr (s\<lparr>sdb_height := sdb_height s + 1\<rparr>))"

subsection \<open>RewindStakeDB\<close>

text \<open>
  The loop of \<open>RewindStakeDB\<close>. The local \<open>stakeDBHeight\<close> is \<open>int64(db.sDB.Height())\<close>
  before the loop and after every disconnect, so each pass reads it from the stake
  database. The result is the stake database, the returned height and the returned
  error.
\<close>

function rewind_loop ::
  "'e sync_env \<Rightarrow> int \<Rightarrow> StakeDatabase \<Rightarrow> StakeDatabase \<times> int \<times> 'e sdb_error option" where
  "rewind_loop env toHeight s =
     (let stakeDBHeight = int (sdb_height s) in
      if stakeDBHeight > toHeight then
        if ctx_Done_rewind env (sdb_height s) then (s, stakeDBHeight, None)
        else (case DisconnectBlock env s of
                Inl err \<Rightarrow> (s, stakeDBHeight, Some err)
              | Inr s' \<Rightarrow> rewind_loop env toHeight s')
      else (s, stakeDBHeight, None))"
  by pat_completeness auto
termination
  by (relation "measure (\<lambda>(env, toHeight, s). sdb_height s)")
     (auto simp: DisconnectBlock_def split: nat.splits option.splits)

definition RewindStakeDB ::
  "'e sync_env \<Rightarrow> int \<Rightarrow> StakeDatabase \<Rightarrow> StakeDatabase \<times> int \<times> 'e sdb_error option" where
  "RewindStakeDB env toHeight s =
     (let toHeight = (if toHeight < 0 then 0 else toHeight)
      in rewind_loop env toHeight s)"


declare rewind_loop.simps [simp del]

subsection \<open>DBHeights\<close>

text \<open>
  Modelled from the spec: the SQLite store (\<open>GetBlockSummaryHeight\<close>,
  \<open>GetStakeInfoHeight\<close>, \<open>StoreBlockSummary\<close>, \<open>StoreStakeInfoExtended\<close> of
  package \<open>dcrsqlite\<close>) is not among the sources. Its two tables are represented by
  their best heights (\<open>-1\<close> when empty, as the comment in \<open>resyncDB\<close> says), and a
  successful store of block \<open>i\<close> makes \<open>i\<close> the best height of its table, which is
  what \<open>resyncDB\<close> assumes when it sets \<open>summaryHeight = i\<close>.
\<close>

record wiredDB =
  summary_table_height :: int
  stake_info_table_height :: int
  sDB :: "StakeDatabase option"
  stdout :: "string list"

datatype 'e sync_error =
    ErrGetBestBlock 'e
  | ErrGetBlockSummaryHeight 'e
  | ErrGetStakeInfoHeight 'e
  | ErrStakeDBMissing
  | ErrDBHeights "'e sync_error"
  | ErrCorrupted
  | ErrDeleteStakeDB
  | ErrRewindStakeDB "'e sdb_error"
  | ErrFetchToHeight
  | ErrChainServerBehind
  | ErrGetBlock int 'e
  | ErrBlockGetter 'e
  | ErrConnectBlock 'e
  | ErrRpcGetBestBlock 'e
  | ErrStoreBlockSummary 'e
  | ErrFeeRateInfoBlock
  | ErrStoreStakeInfo 'e


subsection \<open>resyncDB\<close>

datatype 'e outcome = Returned int "'e sync_error option" | Panicked string

datatype 'e flow = Stop "'e outcome" | Next

record loop_state =
  loop_i :: int
  loop_height :: int
  loop_summaryHeight :: int
  loop_stakeInfoHeight :: int
  loop_stakeDBHeight :: int
  loop_db :: wiredDB

text \<open>The end of a pass that re-reads the node's best height: on an error the function
  returns \<open>ret\<close>; otherwise the loop goes on with \<open>i + 1\<close>.\<close>

definition update_height :: "'e sync_env \<Rightarrow> int \<Rightarrow> loop_state \<Rightarrow> 'e flow \<times> loop_state" where
  "update_height env ret st =
     (case GetBestBlock_loop env (loop_i st) of
        Inl err \<Rightarrow> (Stop (Returned ret (Some (ErrRpcGetBestBlock err))), st)
      | Inr h \<Rightarrow> (Next, st\<lparr>loop_height := h, loop_i := loop_i st + 1\<rparr>))"

text \<open>The part of a pass after the stake database: the two SQLite tables.\<close>

definition store_block :: "'e sync_env \<Rightarrow> loop_state \<Rightarrow> 'e flow \<times> loop_state" where
  "store_block env st =
     (if loop_i st \<le> loop_summaryHeight st \<and> loop_i st \<le> loop_stakeInfoHeight st then update_height env (loop_i st - 1) st
      else
        (case (if loop_i st > loop_summaryHeight st
               then (case StoreBlockSummary_err env (loop_i st) of
                       Some err \<Rightarrow> Inl err
                     | None \<Rightarrow> Inr (st\<lparr>loop_summaryHeight := loop_i st,
                                        loop_db := (loop_db st)\<lparr>summary_table_height := loop_i st\<rparr>\<rparr>))
               else Inr st) of
           Inl err \<Rightarrow> (Stop (Returned (loop_i st - 1) (Some (ErrStoreBlockSummary err))), st)
         | Inr st \<Rightarrow>
             if loop_i st \<le> loop_stakeInfoHeight st then update_height env (loop_i st - 1) st
             else if FeeRateInfoBlock_nil env (loop_i st)
               then (Stop (Returned (loop_i st - 1) (Some ErrFeeRateInfoBlock)), st)
             else (case StoreStakeInfoExtended_err env (loop_i st) of
                     Some err \<Rightarrow> (Stop (Returned (loop_i st - 1) (Some (ErrStoreStakeInfo err))), st)
                   | None \<Rightarrow>
                       update_height env (loop_i st)
                         (st\<lparr>loop_stakeInfoHeight := loop_i st,
                             loop_db := (loop_db st)\<lparr>stake_info_table_height := loop_i st\<rparr>\<rparr>))))"

text \<open>The part of a pass that advances the stake database.\<close>

definition connect_block :: "'e sync_env \<Rightarrow> loop_state \<Rightarrow> 'e flow \<times> loop_state" where
  "connect_block env st =
     (case sDB (loop_db st) of
        None \<Rightarrow> (Stop (Panicked ''nil pointer dereference''), st)
      | Some s \<Rightarrow>
          (case (if loop_i st > loop_stakeDBHeight st then ConnectBlock env (loop_i st) s else Inr s) of
             Inl err \<Rightarrow> (Stop (Returned (loop_i st - 1) (Some (ErrConnectBlock err))), st)
           | Inr s' \<Rightarrow>
               store_block env
                 (st\<lparr>loop_stakeDBHeight := int (sdb_height s'), loop_db := (loop_db st)\<lparr>sDB := Some s'\<rparr>\<rparr>)))"

text \<open>One pass of the block loop, from the quit check to the end of the body.\<close>

definition resync_pass ::
  "'e sync_env \<Rightarrow> bool \<Rightarrow> int \<Rightarrow> loop_state \<Rightarrow> 'e flow \<times> loop_state" where
  "resync_pass env master fetchToHeight st =
     (if ctx_Done_top env (loop_i st) then (Stop (Returned (loop_i st - 1) None), st)
      else
        (let st = (if loop_i st = 764
                   then st\<lparr>loop_db := (loop_db st)\<lparr>stdout := stdout (loop_db st) @ [''ttt'']\<rparr>\<rparr>
                   else st)
         in if master \<or> loop_i st < fetchToHeight then
              (case getBlock_err env (loop_i st) of
                 Some err \<Rightarrow> (Stop (Returned (loop_i st - 1) (Some (ErrGetBlock (loop_i st) err))), st)
               | None \<Rightarrow> connect_block env st)
            else if ctx_Done_wait env (loop_i st) then (Stop (Returned (loop_i st - 1) None), st)
            else
              (case blockGetter_Block_err env (loop_i st) of
                 Some err \<Rightarrow> (Stop (Returned (loop_i st - 1) (Some (ErrBlockGetter err))), st)
               | None \<Rightarrow> connect_block env st)))"

text \<open>
  The \<open>for i := startHeight; i <= height; i++\<close> loop. The node's best height is read
  again in every pass, so the loop need not end; it is given fuel, and \<open>None\<close> means the
  fuel ran out.
\<close>

fun resync_loop ::
  "nat \<Rightarrow> 'e sync_env \<Rightarrow> bool \<Rightarrow> int \<Rightarrow> loop_state \<Rightarrow> ('e flow \<times> loop_state) option" where
  "resync_loop 0 env master fetchToHeight st = None"
| "resync_loop (Suc n) env master fetchToHeight st =
     (if loop_i st \<le> loop_height st then
        (case resync_pass env master fetchToHeight st of
           (Stop r, st') \<Rightarrow> Some (Stop r, st')
         | (Next, st') \<Rightarrow> resync_loop n env master fetchToHeight st')
      else Some (Next, st))"





subsection \<open>What the stores hold\<close>

text \<open>Height \<open>r\<close> is committed in a \<open>wiredDB\<close> when both SQLite tables and the stake
  database have reached it.\<close>

definition committed :: "wiredDB \<Rightarrow> int \<Rightarrow> bool" where
  "committed d r =
     (r \<le> summary_table_height d \<and> r \<le> stake_info_table_height d \<and>
      (case sDB d of None \<Rightarrow> False | Some s \<Rightarrow> r \<le> int (sdb_height s)))"

text \<open>The locals of the loop mirror the stores.\<close>

definition locals_agree :: "loop_state \<Rightarrow> bool" where
  "locals_agree st =
     (loop_summaryHeight st = summary_table_height (loop_db st) \<and>
      loop_stakeInfoHeight st = stake_info_table_height (loop_db st) \<and>
      (case sDB (loop_db st) of
         None \<Rightarrow> False
       | Some s \<Rightarrow> loop_stakeDBHeight st = int (sdb_height s)))"

text \<open>The state in which \<open>resyncDB\<close> enters each pass: everything below \<open>i\<close> is
  committed.\<close>

definition loop_inv :: "loop_state \<Rightarrow> bool" where
  "loop_inv st = (locals_agree st \<and> committed (loop_db st) (loop_i st - 1))"




text \<open>An environment in which nothing is cancelled and nothing fails, with the node
  at height \<open>best\<close>.\<close>

definition calm_env :: "int \<Rightarrow> unit sync_env" where
  "calm_env best =
     \<lparr> ctx_Done_rewind = (\<lambda>h. False), DisconnectBlock_err = (\<lambda>h. None),
       GetBestBlock_first = Inr best,
       GetBlockSummaryHeight_err = (\<lambda>p. None), GetStakeInfoHeight_err = (\<lambda>p. None),
       ctx_Done_top = (\<lambda>i. False), getBlock_err = (\<lambda>i. None),
       ctx_Done_wait = (\<lambda>i. False), blockGetter_Block_err = (\<lambda>i. None),
       ConnectBlock_err = (\<lambda>i. None), GetBestBlock_loop = (\<lambda>i. Inr best),
       StoreBlockSummary_err = (\<lambda>i. None), FeeRateInfoBlock_nil = (\<lambda>i. False),
       StoreStakeInfoExtended_err = (\<lambda>i. None) \<rparr>"

text \<open>A store whose two tables are at height \<open>t\<close> and whose stake database is at
  height \<open>k\<close>; the empty store has tables at \<open>-1\<close> and the stake database at genesis.\<close>

definition db_at :: "int \<Rightarrow> nat \<Rightarrow> wiredDB" where
  "db_at t k = \<lparr> summary_table_height = t, stake_info_table_height = t,
                 sDB = Some \<lparr> sdb_height = k \<rparr>, stdout = [] \<rparr>"



definition state_at_6 :: loop_state where
  "state_at_6 = \<lparr> loop_i = 6, loop_height = 10, loop_summaryHeight = 5, loop_stakeInfoHeight = 5,
                   loop_stakeDBHeight = 5, loop_db = db_at 5 5 \<rparr>"


section \<open>Vote insertion (db/dcrpg/queries.go, InsertVotes)\<close>

text \<open>
  The inputs keep the fields that \<open>InsertVotes\<close> reads. A hash is the string that
  \<open>String()\<close> gives; \<open>TxHash()\<close> and \<open>BlockHash()\<close> are fields holding their result.
  \<open>stake.TxTypeSSGen\<close> is 2 in the stake package. The helpers of other packages
  (\<open>SSGenVersion\<close>, \<open>SSGenVoteBlockValid\<close>, \<open>SSGenVoteChoices\<close>,
  \<open>ChoiceIndexFromStr\<close>, \<open>ToCoin\<close>), the \<open>VotingMilestones\<close> table and the ticket id
  getter are parameters. The two \<open>fmt.Println\<close> calls before the panic, which print the
  misses and the vote transactions, are left out.
\<close>

type_synonym uint64 = "64 word"
type_synonym int16 = "16 word"
type_synonym uint16 = "16 word"

record Tx =
  TxType :: int16
  TxID :: string
  BlockHeight :: int64
  BlockHash :: string
  BlockTime :: int64
  IsMainchainBlock :: bool

record TxIn =
  ValueIn :: int64
  PreviousOutPoint_Hash :: string

record MsgTx =
  TxIn :: "TxIn list"
  TxHash :: string

record MsgBlockPG =
  STransactions :: "MsgTx list"
  Validators :: "string list"
  Header_PrevBlock :: string
  Header_Height :: uint32
  MsgBlock_BlockHash :: string

definition TxTypeSSGen :: int16 where
  "TxTypeSSGen = 2"

text \<open>The rows handed to the three insert statements, argument by argument.\<close>

record 'c vote_row =
  vote_height :: int64
  vote_tx_hash :: string
  vote_block_hash :: string
  vote_candidate_block_hash :: string
  vote_version :: uint32
  vote_bits :: uint16
  vote_block_valid :: bool
  vote_ticket_hash :: string
  vote_ticket_tx_db_id :: uint64
  vote_ticket_price :: 'c
  vote_reward :: 'c
  vote_is_mainchain :: bool

record agenda_row =
  agenda_id :: string
  agenda_vote_choice :: int
  agenda_tx_hash :: string
  agenda_block_height :: int64
  agenda_block_time :: int64
  agenda_locked_in :: bool
  agenda_activated :: bool
  agenda_hard_forked :: bool

record miss_row =
  miss_height :: uint32
  miss_block_hash :: string
  miss_candidate_block_hash :: string
  miss_ticket_hash :: string

text \<open>
  The database is what was asked of it, in order: the trace of calls made on
  \<open>db\<close>, on the transaction and on its prepared statements. The answers come from the
  environment. A \<open>QueryRow\<close> of the vote statement is indexed by the position of the
  vote, one of the agenda statement by the positions of the vote and of the choice, one
  of the miss statement by the position of the miss.
\<close>

datatype 'c db_call =
    Begin
  | Prepare_votes bool bool
  | Prepare_agendas bool
  | Prepare_misses bool bool
  | QueryRow_vote "'c vote_row"
  | QueryRow_agenda agenda_row
  | QueryRow_miss miss_row
  | Rollback
  | Commit

datatype 'e scan = Row uint64 | ErrNoRows | ScanErr 'e

record MileStone =
  LockedIn :: int64
  Activated :: int64
  HardForked :: int64

record AgendaChoice =
  choice_agenda_ID :: string
  choice_Id :: string

record ('e, 'c) votes_env =
  SSGenVersion :: "MsgTx \<Rightarrow> uint32"
  SSGenVoteBlockValid :: "MsgTx \<Rightarrow> 'e + bool \<times> uint16"
  SSGenVoteChoices :: "MsgTx \<Rightarrow> 'e + AgendaChoice list"
  ChoiceIndexFromStr :: "string \<Rightarrow> 'e + int"
  VotingMilestones :: "string \<Rightarrow> MileStone option"
  Amount_ToCoin :: "int64 \<Rightarrow> 'c"
  Begin_err :: "'e option"
  Prepare_votes_err :: "'e option"
  Prepare_agendas_err :: "'e option"
  Prepare_misses_err :: "'e option"
  Scan_vote :: "nat \<Rightarrow> 'e scan"
  Scan_agenda :: "nat \<Rightarrow> nat \<Rightarrow> 'e scan"
  Scan_miss :: "nat \<Rightarrow> 'e scan"
  Commit_err :: "'e option"

datatype 'e votes_error =
    ErrTxidMismatch
  | ErrBegin 'e
  | ErrOther 'e
  | ErrSqlNoRows

datatype go_panic = IndexOutOfRange | VotesPlusMisses nat nat

text \<open>What \<open>InsertVotes\<close> gives back: the six results, or a panic. A \<open>nil\<close> slice is the
  empty list and a \<open>nil\<close> map the empty association list.\<close>

datatype 'e votes_result =
    Results "uint64 list" "Tx list" "string list" "uint64 list" "(string \<times> uint64) list"
            "'e votes_error option"
  | Panic go_panic

definition nil_results :: "'e votes_error option \<Rightarrow> 'e votes_result" where
  "nil_results err = Results [] [] [] [] [] err"

subsection \<open>Choosing the vote transactions\<close>

text \<open>
  The first loop, over \<open>dbTxns\<close> with index \<open>i\<close>. The second argument is what is left
  of \<open>msgTxs\<close> from index \<open>i\<close> on, so \<open>msgTxs[i]\<close> is its head and is out of range when
  it is empty.
\<close>

datatype 'e chosen = Chosen "Tx list" "MsgTx list" | ChooseErr "'e votes_error" | ChoosePanic go_panic

fun choose_votes :: "Tx list \<Rightarrow> MsgTx list \<Rightarrow> Tx list \<Rightarrow> MsgTx list \<Rightarrow> 'e chosen" where
  "choose_votes [] msgTxs voteTxs voteMsgTxs = Chosen voteTxs voteMsgTxs"
| "choose_votes (tx # dbTxns) msgTxs voteTxs voteMsgTxs =
     (if TxType tx = TxTypeSSGen then
        (case msgTxs of
           [] \<Rightarrow> ChoosePanic IndexOutOfRange
         | m # rest \<Rightarrow>
             if TxID tx \<noteq> TxHash m then ChooseErr ErrTxidMismatch
             else choose_votes dbTxns rest (voteTxs @ [tx]) (voteMsgTxs @ [m]))
      else choose_votes dbTxns (drop 1 msgTxs) voteTxs voteMsgTxs)"

subsection \<open>Removing a spent ticket from the missed list\<close>

text \<open>The inner loop over \<open>misses\<close>: the first entry equal to the hash is overwritten by
  the last entry and the slice is cut by one.\<close>

fun first_index :: "string \<Rightarrow> string list \<Rightarrow> nat option" where
  "first_index h [] = None"
| "first_index h (m # ms) = (if m = h then Some 0 else map_option Suc (first_index h ms))"

definition remove_spent :: "string \<Rightarrow> string list \<Rightarrow> string list" where
  "remove_spent h misses =
     (case first_index h misses of
        None \<Rightarrow> misses
      | Some im \<Rightarrow> butlast (misses[im := last misses]))"


subsection \<open>The vote loop\<close>

record 'c votes_state =
  ids :: "uint64 list"
  spentTicketHashes :: "string list"
  spentTicketDbIDs :: "uint64 list"
  misses :: "string list"
  trace :: "'c db_call list"

datatype 'e halt = Fail "'e votes_error" | Crash go_panic

text \<open>\<open>bail()\<close> closes the statements and rolls the transaction back.\<close>

definition bail :: "'c db_call list \<Rightarrow> 'c db_call list" where
  "bail tr = tr @ [Rollback]"

definition scan_error :: "'e scan \<Rightarrow> 'e votes_error option" where
  "scan_error r = (case r of Row rowid \<Rightarrow> None | ErrNoRows \<Rightarrow> Some ErrSqlNoRows | ScanErr e \<Rightarrow> Some (ErrOther e))"

text \<open>The loop over the choices of one vote (index \<open>j\<close>), writing the agendas table.\<close>

fun insert_agendas ::
  "('e, 'c) votes_env \<Rightarrow> Tx \<Rightarrow> nat \<Rightarrow> nat \<Rightarrow> AgendaChoice list \<Rightarrow> 'c db_call list
     \<Rightarrow> 'e votes_error \<times> 'c db_call list + 'c db_call list" where
  "insert_agendas env tx i j [] tr = Inr tr"
| "insert_agendas env tx i j (val # choices) tr =
     (case ChoiceIndexFromStr env (choice_Id val) of
        Inl err \<Rightarrow> Inl (ErrOther err, bail tr)
      | Inr index \<Rightarrow>
          (let (lockedIn, activated, hardForked) =
                 (case VotingMilestones env (choice_agenda_ID val) of
                    None \<Rightarrow> (False, False, False)
                  | Some progress \<Rightarrow>
                      (LockedIn progress = BlockHeight tx, Activated progress = BlockHeight tx,
                       HardForked progress = BlockHeight tx));
               tr = tr @ [QueryRow_agenda
                     \<lparr> agenda_id = choice_agenda_ID val, agenda_vote_choice = index,
                       agenda_tx_hash = TxID tx, agenda_block_height = BlockHeight tx,
                       agenda_block_time = BlockTime tx, agenda_locked_in = lockedIn,
                       agenda_activated = activated, agenda_hard_forked = hardForked \<rparr>]
           in case scan_error (Scan_agenda env i j) of
                Some err \<Rightarrow> Inl (err, bail tr)
              | None \<Rightarrow> insert_agendas env tx i (Suc j) choices tr))"

text \<open>One pass of the loop over \<open>voteTxs\<close>, for the vote at index \<open>i\<close>.\<close>

definition insert_vote ::
  "('e, 'c) votes_env \<Rightarrow> (string \<Rightarrow> 'e + uint64) option \<Rightarrow> bool \<Rightarrow> bool \<Rightarrow> string \<Rightarrow> nat
     \<Rightarrow> Tx \<Rightarrow> MsgTx \<Rightarrow> 'c votes_state \<Rightarrow> 'e halt \<times> 'c db_call list + 'c votes_state" where
  "insert_vote env fTx checked updateExistingRecords candidateBlockHash i tx msgTx st =
     (let voteVersion = SSGenVersion env msgTx in
      case SSGenVoteBlockValid env msgTx of
        Inl err \<Rightarrow> Inl (Fail (ErrOther err), bail (trace st))
      | Inr (validity, voteBits) \<Rightarrow>
      (case TxIn msgTx of
         [] \<Rightarrow> Inl (Crash IndexOutOfRange, trace st)
       | [in0] \<Rightarrow> Inl (Crash IndexOutOfRange, trace st)
       | in0 # in1 # ins \<Rightarrow>
      (let voteReward = Amount_ToCoin env (ValueIn in0);
           stakeSubmissionAmount = Amount_ToCoin env (ValueIn in1);
           stakeSubmissionTxHash = PreviousOutPoint_Hash in1;
           st = st\<lparr>spentTicketHashes := spentTicketHashes st @ [stakeSubmissionTxHash]\<rparr>
       in case (case fTx of None \<Rightarrow> Inr 0 | Some TxnDbID \<Rightarrow> TxnDbID stakeSubmissionTxHash) of
            Inl err \<Rightarrow> Inl (Fail (ErrOther err), bail (trace st))
          | Inr ticketTxDbID \<Rightarrow>
      (let st = st\<lparr>spentTicketDbIDs := spentTicketDbIDs st @ [ticketTxDbID],
                    misses := remove_spent stakeSubmissionTxHash (misses st),
                    trace := trace st @ [QueryRow_vote
                      \<lparr> vote_height = BlockHeight tx, vote_tx_hash = TxID tx,
                        vote_block_hash = BlockHash tx,
                        vote_candidate_block_hash = candidateBlockHash,
                        vote_version = voteVersion, vote_bits = voteBits,
                        vote_block_valid = validity,
                        vote_ticket_hash = stakeSubmissionTxHash,
                        vote_ticket_tx_db_id = ticketTxDbID,
                        vote_ticket_price = stakeSubmissionAmount,
                        vote_reward = voteReward,
                        vote_is_mainchain = IsMainchainBlock tx \<rparr>]\<rparr>
       in case Scan_vote env i of
            ErrNoRows \<Rightarrow> Inr st
          | ScanErr err \<Rightarrow> Inl (Fail (ErrOther err), bail (trace st))
          | Row rowid \<Rightarrow>
      (let st = st\<lparr>ids := ids st @ [rowid]\<rparr>
       in if checked \<and> \<not> updateExistingRecords then Inr st
          else
            (case SSGenVoteChoices env msgTx of
               Inl err \<Rightarrow> Inl (Fail (ErrOther err), bail (trace st))
             | Inr choices \<Rightarrow>
                 (case insert_agendas env tx i 0 choices (trace st) of
                    Inl (err, tr) \<Rightarrow> Inl (Fail err, tr)
                  | Inr tr \<Rightarrow> Inr (st\<lparr>trace := tr\<rparr>))))))))"

fun vote_loop ::
  "('e, 'c) votes_env \<Rightarrow> (string \<Rightarrow> 'e + uint64) option \<Rightarrow> bool \<Rightarrow> bool \<Rightarrow> string \<Rightarrow> nat
     \<Rightarrow> Tx list \<Rightarrow> MsgTx list \<Rightarrow> 'c votes_state \<Rightarrow> 'e halt \<times> 'c db_call list + 'c votes_state" where
  "vote_loop env fTx checked upd cand i [] voteMsgTxs st = Inr st"
| "vote_loop env fTx checked upd cand i (tx # voteTxs) [] st = Inl (Crash IndexOutOfRange, trace st)"
| "vote_loop env fTx checked upd cand i (tx # voteTxs) (msgTx # voteMsgTxs) st =
     (case insert_vote env fTx checked upd cand i tx msgTx st of
        Inl h \<Rightarrow> Inl h
      | Inr st \<Rightarrow> vote_loop env fTx checked upd cand (Suc i) voteTxs voteMsgTxs st)"

subsection \<open>The loop over the misses\<close>

fun insert_misses ::
  "('e, 'c) votes_env \<Rightarrow> MsgBlockPG \<Rightarrow> nat \<Rightarrow> string list \<Rightarrow> (string \<times> uint64) list \<Rightarrow> 'c db_call list
     \<Rightarrow> 'e votes_error \<times> 'c db_call list + (string \<times> uint64) list \<times> 'c db_call list" where
  "insert_misses env msgBlock i [] missHashMap tr = Inr (missHashMap, tr)"
| "insert_misses env msgBlock i (m # ms) missHashMap tr =
     (let tr = tr @ [QueryRow_miss
                 \<lparr> miss_height = Header_Height msgBlock, miss_block_hash = MsgBlock_BlockHash msgBlock,
                   miss_candidate_block_hash = Header_PrevBlock msgBlock, miss_ticket_hash = m \<rparr>]
      in case Scan_miss env i of
           ErrNoRows \<Rightarrow> insert_misses env msgBlock (Suc i) ms missHashMap tr
         | ScanErr err \<Rightarrow> Inl (ErrOther err, tr @ [Rollback])
         | Row rowid \<Rightarrow> insert_misses env msgBlock (Suc i) ms (AList.update m rowid missHashMap) tr)"

subsection \<open>InsertVotes\<close>

text \<open>
  \<open>InsertVotes\<close> in three parts: everything up to the end of the vote loop
  (\<open>votes_phase\<close>), the check of votes plus misses, and the misses with the commit
  (\<open>misses_phase\<close>). Each gives the result together with the trace of database calls.
\<close>

datatype ('e, 'c) votes_progress = Done "'e votes_result" "'c db_call list" | Reached "Tx list" "'c votes_state"

definition votes_phase ::
  "('e, 'c) votes_env \<Rightarrow> Tx list \<Rightarrow> (string \<Rightarrow> 'e + uint64) option \<Rightarrow> MsgBlockPG \<Rightarrow> bool \<Rightarrow> bool
     \<Rightarrow> ('e, 'c) votes_progress" where
  "votes_phase env dbTxns fTx msgBlock checked updateExistingRecords =
     (case choose_votes dbTxns (STransactions msgBlock) [] [] of
        ChoosePanic p \<Rightarrow> Done (Panic p) []
      | ChooseErr err \<Rightarrow> Done (nil_results (Some err)) []
      | Chosen voteTxs voteMsgTxs \<Rightarrow>
     if length voteTxs = 0 then Done (nil_results None) []
     else
     (case Begin_err env of
        Some err \<Rightarrow> Done (nil_results (Some (ErrBegin err))) [Begin]
      | None \<Rightarrow>
     (case Prepare_votes_err env of
        Some err \<Rightarrow> Done (nil_results (Some (ErrOther err)))
                      [Begin, Prepare_votes checked updateExistingRecords, Rollback]
      | None \<Rightarrow>
     (case Prepare_agendas_err env of
        Some err \<Rightarrow> Done (nil_results (Some (ErrOther err)))
                      [Begin, Prepare_votes checked updateExistingRecords, Prepare_agendas checked,
                       Rollback]
      | None \<Rightarrow>
     (case vote_loop env fTx checked updateExistingRecords (Header_PrevBlock msgBlock) 0
             voteTxs voteMsgTxs
             \<lparr> ids = [], spentTicketHashes = [], spentTicketDbIDs = [],
               misses = Validators msgBlock,
               trace = [Begin, Prepare_votes checked updateExistingRecords,
                        Prepare_agendas checked] \<rparr> of
        Inl (Fail err, tr) \<Rightarrow> Done (nil_results (Some err)) tr
      | Inl (Crash p, tr) \<Rightarrow> Done (Panic p) tr
      | Inr st \<Rightarrow> Reached voteTxs st)))))"

definition misses_phase ::
  "('e, 'c) votes_env \<Rightarrow> MsgBlockPG \<Rightarrow> bool \<Rightarrow> bool \<Rightarrow> Tx list \<Rightarrow> 'c votes_state
     \<Rightarrow> 'e votes_result \<times> 'c db_call list" where
  "misses_phase env msgBlock checked updateExistingRecords voteTxs st =
     (case (if length (misses st) > 0 then
              (case Prepare_misses_err env of
                 Some err \<Rightarrow> Inl (ErrOther err,
                                 trace st @ [Prepare_misses checked updateExistingRecords, Rollback])
               | None \<Rightarrow>
                   insert_misses env msgBlock 0 (misses st) []
                     (trace st @ [Prepare_misses checked updateExistingRecords]))
            else Inr ([], trace st)) of
        Inl (err, tr) \<Rightarrow> (nil_results (Some err), tr)
      | Inr (missHashMap, tr) \<Rightarrow>
          (Results (ids st) voteTxs (spentTicketHashes st) (spentTicketDbIDs st) missHashMap
             (map_option ErrOther (Commit_err env)),
           tr @ [Commit]))"

definition InsertVotes ::
  "('e, 'c) votes_env \<Rightarrow> Tx list \<Rightarrow> (string \<Rightarrow> 'e + uint64) option \<Rightarrow> MsgBlockPG \<Rightarrow> bool \<Rightarrow> bool
     \<Rightarrow> 'e votes_result \<times> 'c db_call list" where
  "InsertVotes env dbTxns fTx msgBlock checked updateExistingRecords =
     (case votes_phase env dbTxns fTx msgBlock checked updateExistingRecords of
        Done res tr \<Rightarrow> (res, tr)
      | Reached voteTxs st \<Rightarrow>
          if length (Validators msgBlock) > 0 \<and> length (ids st) + length (misses st) \<noteq> 5
          then (Panic (VotesPlusMisses (length (ids st)) (length (misses st))), trace st @ [Rollback])
          else misses_phase env msgBlock checked updateExistingRecords voteTxs st)"


subsection \<open>Reading the trace\<close>

fun vote_rows :: "'c db_call list \<Rightarrow> 'c vote_row list" where
  "vote_rows [] = []"
| "vote_rows (QueryRow_vote r # tr) = r # vote_rows tr"
| "vote_rows (c # tr) = vote_rows tr"

fun miss_rows :: "'c db_call list \<Rightarrow> miss_row list" where
  "miss_rows [] = []"
| "miss_rows (QueryRow_miss r # tr) = r # miss_rows tr"
| "miss_rows (c # tr) = miss_rows tr"

text \<open>The ticket a vote spends and the reward it pays, as \<open>InsertVotes\<close> reads them:
  the previous outpoint of input 1 and the value of input 0.\<close>

definition spent_ticket :: "MsgTx \<Rightarrow> string" where
  "spent_ticket m = PreviousOutPoint_Hash (TxIn m ! 1)"

definition stakebase_value :: "MsgTx \<Rightarrow> int64" where
  "stakebase_value m = ValueIn (TxIn m ! 0)"


definition isSSGen :: "Tx \<Rightarrow> bool" where
  "isSSGen tx = (TxType tx = TxTypeSSGen)"


subsection \<open>Sample inputs\<close>

text \<open>An environment in which every call succeeds, the vote at position \<open>i\<close> gets row
  id \<open>100 + i\<close> and the miss at position \<open>i\<close> gets row id \<open>200 + i\<close>; amounts stay in
  atoms.\<close>

definition votes_env_ok :: "(unit, int64) votes_env" where
  "votes_env_ok =
     \<lparr> SSGenVersion = (\<lambda>m. 4), SSGenVoteBlockValid = (\<lambda>m. Inr (True, 1)),
       SSGenVoteChoices = (\<lambda>m. Inr []), ChoiceIndexFromStr = (\<lambda>s. Inr 0),
       VotingMilestones = (\<lambda>a. None), Amount_ToCoin = (\<lambda>a. a),
       Begin_err = None, Prepare_votes_err = None, Prepare_agendas_err = None,
       Prepare_misses_err = None, Scan_vote = (\<lambda>i. Row (of_nat i + 100)),
       Scan_agenda = (\<lambda>i j. Row 1), Scan_miss = (\<lambda>i. Row (of_nat i + 200)),
       Commit_err = None \<rparr>"

definition sample_tx :: "int16 \<Rightarrow> string \<Rightarrow> Tx" where
  "sample_tx ty h = \<lparr> TxType = ty, TxID = h, BlockHeight = 10, BlockHash = ''b10'', BlockTime = 0,
                      IsMainchainBlock = True \<rparr>"

definition sample_vote :: "string \<Rightarrow> string \<Rightarrow> MsgTx" where
  "sample_vote h ticket =
     \<lparr> TxIn = [\<lparr> ValueIn = 7, PreviousOutPoint_Hash = ''0'' \<rparr>,
               \<lparr> ValueIn = 50, PreviousOutPoint_Hash = ticket \<rparr>],
       TxHash = h \<rparr>"

definition sample_block :: "MsgTx list \<Rightarrow> string list \<Rightarrow> MsgBlockPG" where
  "sample_block stxs validators =
     \<lparr> STransactions = stxs, Validators = validators, Header_PrevBlock = ''b9'',
       Header_Height = 10, MsgBlock_BlockHash = ''b10'' \<rparr>"

text \<open>The loop state of \<open>resyncDB\<close> on entering the pass at height 764.\<close>

definition state_at_764 :: loop_state where
  "state_at_764 = \<lparr> loop_i = 764, loop_height = 800, loop_summaryHeight = 763,
                     loop_stakeInfoHeight = 763, loop_stakeDBHeight = 763, loop_db = db_at 763 763 \<rparr>"


section \<open>Common ancestor of two chain tips (rpcutils/rpcclient.go)\<close>














subsection \<open>Walks and branches\<close>












section \<open>Spending linkage in the addresses table (db/dcrpg/queries.go)\<close>

text \<open>
  The addresses table is the list of its rows, with the columns of section 3 of the
  spec. A transaction works on a copy of the table, which replaces the table when it
  commits and is dropped when it rolls back. Errors of the database driver come from
  the environment.
\<close>

record address_row =
  ar_id :: uint64
  ar_address :: string
  ar_matching_tx_hash :: string
  ar_tx_hash :: string
  ar_tx_vin_vout_index :: uint32
  ar_tx_vin_vout_row_id :: uint64
  ar_value :: uint64
  ar_block_time :: int64
  ar_is_funding :: bool
  ar_valid_mainchain :: bool
  ar_tx_type :: int16

type_synonym addresses = "address_row list"

datatype 'e vout_lookup = Found string uint64 | NoRows | LookupErr 'e

record vin_pair =
  vin_tx_hash :: string
  vin_tx_index :: uint32
  vin_prev_tx_hash :: string
  vin_prev_tx_index :: uint32

record 'e addr_env =
  SelectAddressByTxHash :: "string \<Rightarrow> uint32 \<Rightarrow> 8 word \<Rightarrow> 'e vout_lookup"
  SelectTxBlockTimeByHash :: "string \<Rightarrow> 'e + int64"
  InsertAddressRow_err :: "'e option"
  SetAddressMatchingTxHash_err :: "'e option"
  db_Begin_err :: "'e option"
  db_Prepare_err :: "'e option"
  db_Commit_err :: "'e option"
  SelectVinVoutPairByID :: "uint64 \<Rightarrow> 'e + vin_pair"

datatype 'e addr_error =
    ErrSelectAddressByTxHash 'e
  | ErrSelectTxBlockTimeByHash 'e
  | ErrInsertAddressRow 'e
  | ErrSetAddressMatchingTxHashForOutpoint 'e
  | ErrBeginTx 'e
  | ErrPrepare 'e
  | ErrSelectVinVoutPairByID 'e
  | ErrCommit 'e
  | ErrRowsAffected "'e addr_error"

text \<open>\<open>zeroHashStringBytes\<close> is \<open>[]byte(chainhash.Hash{}.String())\<close>: 64 characters
  \<open>0\<close>.\<close>

definition zeroHashStringBytes :: string where
  "zeroHashStringBytes = replicate 64 CHR ''0''"

text \<open>
  Modelled from the spec: the statement \<open>SetAddressMatchingTxHashForOutpoint\<close> (package
  \<open>internal\<close>, addrstmts.go) is not among the sources. Section 4.3.3: it sets
  \<open>matching_tx_hash\<close> on the funding address rows looked up by the funding outpoint to
  the spender's transaction hash. The arguments are the spending hash, the funding hash
  and the funding output index; the result is the new table and the rows affected.
\<close>

definition is_funding_row_of :: "string \<Rightarrow> uint32 \<Rightarrow> address_row \<Rightarrow> bool" where
  "is_funding_row_of fundingTxHash fundingTxVoutIndex r =
     (ar_is_funding r \<and> ar_tx_hash r = fundingTxHash \<and> ar_tx_vin_vout_index r = fundingTxVoutIndex)"

definition set_matching_row :: "string \<Rightarrow> string \<Rightarrow> uint32 \<Rightarrow> address_row \<Rightarrow> address_row" where
  "set_matching_row spendingTxHash fundingTxHash fundingTxVoutIndex r =
     (if is_funding_row_of fundingTxHash fundingTxVoutIndex r
      then r\<lparr>ar_matching_tx_hash := spendingTxHash\<rparr> else r)"

definition SetAddressMatchingTxHashForOutpoint ::
  "string \<Rightarrow> string \<Rightarrow> uint32 \<Rightarrow> addresses \<Rightarrow> addresses \<times> int" where
  "SetAddressMatchingTxHashForOutpoint spendingTxHash fundingTxHash fundingTxVoutIndex tbl =
     (map (set_matching_row spendingTxHash fundingTxHash fundingTxVoutIndex) tbl,
      int (length (filter (is_funding_row_of fundingTxHash fundingTxVoutIndex) tbl)))"

text \<open>
  Modelled from the spec: the statements of \<open>MakeAddressRowInsertStatement\<close> (package
  \<open>internal\<close>) are not among the sources. Section 4.3.1: with \<open>checked = False\<close> an
  unconditional insert; with \<open>checked\<close> and no update, on conflict nothing is changed and
  the id of the existing row is returned; with \<open>checked\<close> and update, on conflict the
  mutable columns (\<open>valid_mainchain\<close>, \<open>matching_tx_hash\<close>) are updated and the id of
  the row is returned. Section 3: there is one row per address and vin or vout, so rows
  conflict when they agree on the address, the vin or vout id and \<open>is_funding\<close>. A new
  row gets an id above all ids of the table.
\<close>

definition conflicts :: "address_row \<Rightarrow> address_row \<Rightarrow> bool" where
  "conflicts new r =
     (ar_address r = ar_address new \<and> ar_tx_vin_vout_row_id r = ar_tx_vin_vout_row_id new \<and>
      ar_is_funding r = ar_is_funding new)"

definition fresh_id :: "addresses \<Rightarrow> uint64" where
  "fresh_id tbl = of_nat (Suc (fold max (map (\<lambda>r. unat (ar_id r)) tbl) 0))"

definition upsert_row :: "address_row \<Rightarrow> address_row \<Rightarrow> address_row" where
  "upsert_row new r =
     (if conflicts new r
      then r\<lparr>ar_valid_mainchain := ar_valid_mainchain new,
             ar_matching_tx_hash := ar_matching_tx_hash new\<rparr>
      else r)"

definition exec_insert :: "bool \<Rightarrow> bool \<Rightarrow> address_row \<Rightarrow> addresses \<Rightarrow> uint64 \<times> addresses" where
  "exec_insert checked updateExisting new tbl =
     (case (if checked then find (conflicts new) tbl else None) of
        None \<Rightarrow> (fresh_id tbl, tbl @ [new\<lparr>ar_id := fresh_id tbl\<rparr>])
      | Some old \<Rightarrow>
          if updateExisting
          then (ar_id old, map (upsert_row new) tbl)
          else (ar_id old, tbl))"

subsection \<open>setSpendingForFundingOP\<close>

definition setSpendingForFundingOP ::
  "'e addr_env \<Rightarrow> string \<Rightarrow> uint32 \<Rightarrow> string \<Rightarrow> uint32 \<Rightarrow> addresses
     \<Rightarrow> ('e addr_error + int) \<times> addresses" where
  "setSpendingForFundingOP env fundingTxHash fundingTxVoutIndex spendingTxHash spendingTxVinIndex tbl =
     (case SetAddressMatchingTxHash_err env of
        Some err \<Rightarrow> (Inl (ErrSetAddressMatchingTxHashForOutpoint err), tbl)
      | None \<Rightarrow>
          (let (tbl, n) = SetAddressMatchingTxHashForOutpoint spendingTxHash fundingTxHash
                            fundingTxVoutIndex tbl
           in (Inr n, tbl)))"

subsection \<open>insertSpendingAddressRow\<close>

text \<open>The first address of the array text that the vouts table gives: braces removed,
  then the part before the first comma.\<close>

definition first_address :: "string \<Rightarrow> string" where
  "first_address addrArray =
     takeWhile (\<lambda>c. c \<noteq> CHR '','')
       (filter (\<lambda>c. c \<noteq> CHR 0x7B \<and> c \<noteq> CHR 0x7D) addrArray)"

record UTXOData =
  utxo_Address :: string
  utxo_Value :: int64

text \<open>The row that the insert statement is given: \<open>addr\<close>, \<open>fundingTxHash\<close> as the
  matching hash, \<open>spendingTxHash\<close>, \<open>spendingTxVinIndex\<close>, \<open>vinDbID\<close>, \<open>value\<close>,
  \<open>blockTime.T\<close>, \<open>isFunding\<close>, \<open>validMainchain\<close>, \<open>txType\<close>; the id is the table's.\<close>

definition spending_args ::
  "string \<Rightarrow> string \<Rightarrow> string \<Rightarrow> uint32 \<Rightarrow> uint64 \<Rightarrow> uint64 \<Rightarrow> int64 \<Rightarrow> bool \<Rightarrow> bool \<Rightarrow> int16
     \<Rightarrow> address_row" where
  "spending_args addr fundingTxHash spendingTxHash spendingTxVinIndex vinDbID v blockTime
       isFunding validMainchain txType =
     \<lparr> ar_id = 0, ar_address = addr, ar_matching_tx_hash = fundingTxHash,
       ar_tx_hash = spendingTxHash, ar_tx_vin_vout_index = spendingTxVinIndex,
       ar_tx_vin_vout_row_id = vinDbID, ar_value = v, ar_block_time = blockTime,
       ar_is_funding = isFunding, ar_valid_mainchain = validMainchain, ar_tx_type = txType \<rparr>"

definition insertSpendingAddressRow ::
  "'e addr_env \<Rightarrow> string \<Rightarrow> uint32 \<Rightarrow> 8 word \<Rightarrow> string \<Rightarrow> uint32 \<Rightarrow> uint64 \<Rightarrow> UTXOData option
     \<Rightarrow> bool \<Rightarrow> bool \<Rightarrow> bool \<Rightarrow> int16 \<Rightarrow> bool \<Rightarrow> int64 option \<Rightarrow> addresses
     \<Rightarrow> ('e addr_error + int) \<times> addresses" where
  "insertSpendingAddressRow env fundingTxHash fundingTxVoutIndex fundingTxTree spendingTxHash
       spendingTxVinIndex vinDbID utxoData checked updateExisting validMainchain txType
       updateFundingRow blockT tbl =
     (case (case utxoData of
              None \<Rightarrow>
                (case SelectAddressByTxHash env fundingTxHash fundingTxVoutIndex fundingTxTree of
                   LookupErr err \<Rightarrow> Inl (ErrSelectAddressByTxHash err)
                 | NoRows \<Rightarrow> Inr (first_address [], 0)
                 | Found addrArray v \<Rightarrow> Inr (first_address addrArray, v))
            | Some u \<Rightarrow> Inr (utxo_Address u, utxo_Value u)) of
        Inl err \<Rightarrow> (Inl err, tbl)
      | Inr (addr, v) \<Rightarrow>
     (case (case blockT of
              Some t \<Rightarrow> Inr t
            | None \<Rightarrow>
                (case SelectTxBlockTimeByHash env spendingTxHash of
                   Inl err \<Rightarrow> Inl (ErrSelectTxBlockTimeByHash err)
                 | Inr t \<Rightarrow> Inr t)) of
        Inl err \<Rightarrow> (Inl err, tbl)
      | Inr blockTime \<Rightarrow>
     (let isFunding = False in
      case InsertAddressRow_err env of
        Some err \<Rightarrow> (Inl (ErrInsertAddressRow err), tbl)
      | None \<Rightarrow>
     (let (rowID, tbl) =
            exec_insert checked updateExisting
              (spending_args addr fundingTxHash spendingTxHash spendingTxVinIndex vinDbID v
                 blockTime isFunding validMainchain txType)
              tbl
      in if updateFundingRow
         then setSpendingForFundingOP env fundingTxHash fundingTxVoutIndex spendingTxHash
                spendingTxVinIndex tbl
         else (Inr 0, tbl)))))"

text \<open>\<open>InsertSpendingAddressRow\<close> runs it in a transaction of its own.\<close>

definition InsertSpendingAddressRow ::
  "'e addr_env \<Rightarrow> string \<Rightarrow> uint32 \<Rightarrow> 8 word \<Rightarrow> string \<Rightarrow> uint32 \<Rightarrow> uint64 \<Rightarrow> UTXOData option
     \<Rightarrow> bool \<Rightarrow> bool \<Rightarrow> bool \<Rightarrow> int16 \<Rightarrow> bool \<Rightarrow> int64 \<Rightarrow> addresses
     \<Rightarrow> ('e addr_error + int) \<times> addresses" where
  "InsertSpendingAddressRow env fundingTxHash fundingTxVoutIndex fundingTxTree spendingTxHash
       spendingTxVinIndex vinDbID utxoData checked updateExisting isValidMainchain txType
       updateFundingRow spendingTXBlockTime tbl =
     (case db_Begin_err env of
        Some err \<Rightarrow> (Inl (ErrBeginTx err), tbl)
      | None \<Rightarrow>
          (case insertSpendingAddressRow env fundingTxHash fundingTxVoutIndex fundingTxTree
                  spendingTxHash spendingTxVinIndex vinDbID utxoData checked updateExisting
                  isValidMainchain txType updateFundingRow (Some spendingTXBlockTime) tbl of
             (Inl err, dbtx) \<Rightarrow> (Inl (ErrRowsAffected err), tbl)
           | (Inr c, dbtx) \<Rightarrow>
               (case db_Commit_err env of
                  Some err \<Rightarrow> (Inl (ErrCommit err), tbl)
                | None \<Rightarrow> (Inr c, dbtx))))"

subsection \<open>SetSpendingForVinDbIDs\<close>

text \<open>The loop over \<open>vinDbIDs\<close> with index \<open>iv\<close>, on the transaction's copy of the
  table; \<open>addressRowsUpdated\<close> starts as zeros.\<close>

fun set_spending_loop ::
  "'e addr_env \<Rightarrow> nat \<Rightarrow> uint64 list \<Rightarrow> int list \<Rightarrow> int \<Rightarrow> addresses
     \<Rightarrow> 'e addr_error \<times> int list + int list \<times> int \<times> addresses" where
  "set_spending_loop env iv [] addressRowsUpdated totalUpdated dbtx =
     Inr (addressRowsUpdated, totalUpdated, dbtx)"
| "set_spending_loop env iv (vinDbID # vinDbIDs) addressRowsUpdated totalUpdated dbtx =
     (case SelectVinVoutPairByID env vinDbID of
        Inl err \<Rightarrow> Inl (ErrSelectVinVoutPairByID err, addressRowsUpdated)
      | Inr vin \<Rightarrow>
          if zeroHashStringBytes = vin_prev_tx_hash vin
          then set_spending_loop env (Suc iv) vinDbIDs addressRowsUpdated totalUpdated dbtx
          else
            (case setSpendingForFundingOP env (vin_prev_tx_hash vin) (vin_prev_tx_index vin)
                    (vin_tx_hash vin) (vin_tx_index vin) dbtx of
               (Inl err, dbtx) \<Rightarrow> Inl (err, addressRowsUpdated[iv := 0])
             | (Inr n, dbtx) \<Rightarrow>
                 set_spending_loop env (Suc iv) vinDbIDs (addressRowsUpdated[iv := n])
                   (totalUpdated + n) dbtx))"

definition SetSpendingForVinDbIDs ::
  "'e addr_env \<Rightarrow> uint64 list \<Rightarrow> addresses \<Rightarrow> (int list \<times> int \<times> 'e addr_error option) \<times> addresses" where
  "SetSpendingForVinDbIDs env vinDbIDs tbl =
     (case db_Begin_err env of
        Some err \<Rightarrow> (([], 0, Some (ErrBeginTx err)), tbl)
      | None \<Rightarrow>
     (case db_Prepare_err env of
        Some err \<Rightarrow> (([], 0, Some (ErrPrepare err)), tbl)
      | None \<Rightarrow>
     (case set_spending_loop env 0 vinDbIDs (replicate (length vinDbIDs) 0) 0 tbl of
        Inl (err, addressRowsUpdated) \<Rightarrow> ((addressRowsUpdated, 0, Some err), tbl)
      | Inr (addressRowsUpdated, totalUpdated, dbtx) \<Rightarrow>
          (case db_Commit_err env of
             Some err \<Rightarrow> ((addressRowsUpdated, totalUpdated, Some (ErrCommit err)), tbl)
           | None \<Rightarrow> ((addressRowsUpdated, totalUpdated, None), dbtx)))))"


subsection \<open>What the vins of a list ask for\<close>

text \<open>The vins of \<open>vinDbIDs\<close> that are found and whose previous outpoint is not the zero
  hash, in order, and the update that each asks for.\<close>

definition spending_vins :: "'e addr_env \<Rightarrow> uint64 list \<Rightarrow> vin_pair list" where
  "spending_vins env vinDbIDs =
     concat (map (\<lambda>vinDbID. case SelectVinVoutPairByID env vinDbID of
                                Inl err \<Rightarrow> []
                              | Inr vin \<Rightarrow> if zeroHashStringBytes = vin_prev_tx_hash vin then [] else [vin])
                 vinDbIDs)"

definition apply_vin :: "addresses \<Rightarrow> vin_pair \<Rightarrow> addresses" where
  "apply_vin tbl vin =
     fst (SetAddressMatchingTxHashForOutpoint (vin_tx_hash vin) (vin_prev_tx_hash vin)
            (vin_prev_tx_index vin) tbl)"

definition is_coinbase_vin :: "'e addr_env \<Rightarrow> uint64 \<Rightarrow> bool" where
  "is_coinbase_vin env vinDbID =
     (case SelectVinVoutPairByID env vinDbID of
        Inl err \<Rightarrow> False
      | Inr vin \<Rightarrow> zeroHashStringBytes = vin_prev_tx_hash vin)"

subsection \<open>Sample table\<close>

text \<open>One funding row for output 0 of transaction \<open>f1\<close>, not yet spent, and an
  environment in which every call succeeds; vin 7 spends that output in transaction
  \<open>s1\<close> and vin 8 is a coinbase input.\<close>

definition funding_row :: address_row where
  "funding_row = \<lparr> ar_id = 1, ar_address = ''Ds1'', ar_matching_tx_hash = [], ar_tx_hash = ''f1'',
      ar_tx_vin_vout_index = 0, ar_tx_vin_vout_row_id = 11, ar_value = 100, ar_block_time = 5,
      ar_is_funding = True, ar_valid_mainchain = True, ar_tx_type = 0 \<rparr>"

definition spending_row :: address_row where
  "spending_row = \<lparr> ar_id = 2, ar_address = ''Ds1'', ar_matching_tx_hash = ''f1'', ar_tx_hash = ''s1'',
      ar_tx_vin_vout_index = 0, ar_tx_vin_vout_row_id = 7, ar_value = 100, ar_block_time = 9,
      ar_is_funding = False, ar_valid_mainchain = True, ar_tx_type = 0 \<rparr>"

definition addr_env_ok :: "unit addr_env" where
  "addr_env_ok =
     \<lparr> SelectAddressByTxHash = (\<lambda>h i t. Found ''{Ds1,Ds2}'' 100),
       SelectTxBlockTimeByHash = (\<lambda>h. Inr 9),
       InsertAddressRow_err = None, SetAddressMatchingTxHash_err = None,
       db_Begin_err = None, db_Prepare_err = None, db_Commit_err = None,
       SelectVinVoutPairByID =
         (\<lambda>k. if k = 7 then Inr \<lparr> vin_tx_hash = ''s1'', vin_tx_index = 0,
                                  vin_prev_tx_hash = ''f1'', vin_prev_tx_index = 0 \<rparr>
              else if k = 8 then Inr \<lparr> vin_tx_hash = ''cb'', vin_tx_index = 0,
                                       vin_prev_tx_hash = zeroHashStringBytes,
                                       vin_prev_tx_index = 0 \<rparr>
              else Inl ()) \<rparr>"


section \<open>Properties\<close>

subsection \<open>Transaction insert statements\<close>

lemma find_after_sound: "find_after p s = Some r \<Longrightarrow> \<exists>pre. s = pre @ p @ r"
proof (induction s)
  case Nil
  then show ?case by (simp split: if_splits)
next
  case (Cons x xs)
  show ?case
  proof (cases "prefix p (x # xs)")
    case True
    with Cons.prems have "r = drop (length p) (x # xs)" by simp
    moreover from True have "x # xs = p @ drop (length p) (x # xs)"
      by (metis append_eq_conv_conj prefix_def)
    ultimately have "x # xs = [] @ p @ r" by simp
    then show ?thesis by blast
  next
    case False
    with Cons.prems have "find_after p xs = Some r" by simp
    then obtain pre where "xs = pre @ p @ r" using Cons.IH by blast
    then have "x # xs = (x # pre) @ p @ r" by simp
    then show ?thesis by blast
  qed
qed



subsection \<open>Address UTXO query\<close>

lemma sint_conf:
  fixes c h :: int64
  assumes "- (2 ^ 63) \<le> sint c - sint h + 1" "sint c - sint h + 1 < 2 ^ 63"
  shows "sint (c - h + 1) = sint c - sint h + 1"
proof -
  have "c - h + 1 = (word_of_int (sint c - sint h + 1) :: int64)"
    by simp
  then have "sint (c - h + 1) = signed_take_bit 63 (sint c - sint h + 1)"
    by (simp only: sint_sbintrunc') simp
  also have "\<dots> = sint c - sint h + 1"
    using assms by (simp add: signed_take_bit_int_eq_self)
  finally show ?thesis .
qed

text \<open>
  C8. When the query succeeds, \<open>RetrieveAddressUTXOs\<close> returns one output per row, in
  order; each reports the row's block height as \<open>Height\<close> and
  \<open>currentBlockHeight - blockHeight + 1\<close> as \<open>Confirmations\<close>. The arithmetic is
  Go's \<open>int64\<close>; whenever the exact value fits in 64 bits (as for any real pair of block
  heights) it is the integer \<open>currentHeight - outputHeight + 1\<close>.
\<close>

theorem RetrieveAddressUTXOs_confirmations:
  assumes "db address = Rows rows"
  shows "\<exists>outputs. RetrieveAddressUTXOs ToCoin db address cur = Inr outputs
     \<and> length outputs = length rows
     \<and> (\<forall>i < length rows.
           Height (outputs ! i) = col_block_height (rows ! i)
         \<and> Confirmations (outputs ! i) = cur - col_block_height (rows ! i) + 1
         \<and> (- (2 ^ 63) \<le> sint cur - sint (col_block_height (rows ! i)) + 1
            \<and> sint cur - sint (col_block_height (rows ! i)) + 1 < 2 ^ 63
            \<longrightarrow> sint (Confirmations (outputs ! i)) = sint cur - sint (col_block_height (rows ! i)) + 1))"
  using assms by (simp add: RetrieveAddressUTXOs_def scan_output_def Let_def sint_conf)


theorem RetrieveAddressUTXOs_confirmations_witness:
  "\<exists>outputs. RetrieveAddressUTXOs id (\<lambda>a. Rows [utxo_row_example] :: unit utxo_query) ''DsExampleAddress'' 105 = Inr outputs
     \<and> length outputs = 1
     \<and> Height (outputs ! 0) = 100
     \<and> Confirmations (outputs ! 0) = 6
     \<and> sint (Confirmations (outputs ! 0)) = 6"
proof -
  from RetrieveAddressUTXOs_confirmations [where db = "\<lambda>a. Rows [utxo_row_example] :: unit utxo_query"
      and address = "''DsExampleAddress''" and rows = "[utxo_row_example]" and ToCoin = id and cur = 105]
  obtain outputs where o: "RetrieveAddressUTXOs id (\<lambda>a. Rows [utxo_row_example] :: unit utxo_query) ''DsExampleAddress'' 105 = Inr outputs"
    and l: "length outputs = 1"
    and a: "Height (outputs ! 0) = col_block_height utxo_row_example
         \<and> Confirmations (outputs ! 0) = 105 - col_block_height utxo_row_example + 1
         \<and> (- (2 ^ 63) \<le> sint (105 :: int64) - sint (col_block_height utxo_row_example) + 1
            \<and> sint (105 :: int64) - sint (col_block_height utxo_row_example) + 1 < 2 ^ 63
            \<longrightarrow> sint (Confirmations (outputs ! 0)) = sint (105 :: int64) - sint (col_block_height utxo_row_example) + 1)"
    by auto
  from a have "Height (outputs ! 0) = 100 \<and> Confirmations (outputs ! 0) = 6
      \<and> sint (Confirmations (outputs ! 0)) = 6"
    by (simp add: utxo_row_example_def)
  with o l show ?thesis by blast
qed


subsection \<open>Stake database and lite-mode sync\<close>

paragraph \<open>Rewinding the stake database\<close>

lemma rewind_loop_noop:
  "int (sdb_height s) \<le> toHeight \<Longrightarrow> rewind_loop env toHeight s = (s, int (sdb_height s), None)"
  by (simp add: rewind_loop.simps)

lemma rewind_loop_result:
  "0 \<le> toHeight \<Longrightarrow> rewind_loop env toHeight s = (s', h, err) \<Longrightarrow>
     h = int (sdb_height s') \<and> err \<noteq> Some NoBlockToDisconnect \<and> sdb_height s' \<le> sdb_height s
     \<and> (toHeight \<le> int (sdb_height s) \<longrightarrow> toHeight \<le> int (sdb_height s'))"
proof (induction env toHeight s rule: rewind_loop.induct)
  case (1 env toHeight s)
  show ?case
  proof (cases "int (sdb_height s) > toHeight")
    case False
    with "1.prems" show ?thesis by (auto simp add: rewind_loop.simps)
  next
    case above: True
    show ?thesis
    proof (cases "ctx_Done_rewind env (sdb_height s)")
      case True
      with above "1.prems" show ?thesis by (auto simp add: rewind_loop.simps)
    next
      case notdone: False
      show ?thesis
      proof (cases "DisconnectBlock env s")
        case (Inl e)
        with above notdone "1.prems" have "s' = s" "h = int (sdb_height s)" "err = Some e"
          by (auto simp add: rewind_loop.simps)
        moreover from Inl above "1.prems"(1) have "e \<noteq> NoBlockToDisconnect"
          by (auto simp: DisconnectBlock_def split: nat.splits option.splits)
        ultimately show ?thesis by simp
      next
        case (Inr s1)
        with above notdone "1.prems" have r: "rewind_loop env toHeight s1 = (s', h, err)"
          by (simp add: rewind_loop.simps)
        from Inr have h1: "sdb_height s = Suc (sdb_height s1)"
          by (auto simp: DisconnectBlock_def split: nat.splits option.splits)
        from "1.IH"[OF refl above notdone Inr "1.prems"(1) r] h1 above
        show ?thesis by auto
      qed
    qed
  qed
qed

lemma rewind_loop_complete:
  "0 \<le> toHeight \<Longrightarrow> toHeight \<le> int (sdb_height s) \<Longrightarrow>
   \<forall>h. toHeight < int h \<and> h \<le> sdb_height s \<longrightarrow> \<not> ctx_Done_rewind env h \<and> DisconnectBlock_err env h = None \<Longrightarrow>
   rewind_loop env toHeight s = (s\<lparr>sdb_height := nat toHeight\<rparr>, toHeight, None)"
proof (induction env toHeight s rule: rewind_loop.induct)
  case (1 env toHeight s)
  show ?case
  proof (cases "int (sdb_height s) > toHeight")
    case False
    with "1.prems" have "int (sdb_height s) = toHeight" by simp
    then show ?thesis by (auto simp add: rewind_loop.simps)
  next
    case above: True
    then obtain k where k: "sdb_height s = Suc k" using "1.prems"(1) by (cases "sdb_height s") auto
    from "1.prems"(3) above have nd: "\<not> ctx_Done_rewind env (sdb_height s)"
      and ne: "DisconnectBlock_err env (sdb_height s) = None" by auto
    from k ne have d: "DisconnectBlock env s = Inr (s\<lparr>sdb_height := k\<rparr>)"
      by (simp add: DisconnectBlock_def)
    have "rewind_loop env toHeight (s\<lparr>sdb_height := k\<rparr>)
            = ((s\<lparr>sdb_height := k\<rparr>)\<lparr>sdb_height := nat toHeight\<rparr>, toHeight, None)"
      using "1.IH"[OF refl above nd d "1.prems"(1)] "1.prems"(3) above k by auto
    with above nd d show ?thesis by (simp add: rewind_loop.simps)
  qed
qed

text \<open>
  C9. If \<open>toHeight\<close> is at or above the stake database height, \<open>RewindStakeDB\<close>
  leaves the stake database as it is and returns its height and no error. A negative
  \<open>toHeight\<close> gives what \<open>toHeight = 0\<close> gives. Whatever the arguments, the
  returned height is the height the stake database is left at, it is not negative, the
  function never asks the stake database to disconnect at height 0, and it never goes
  below a \<open>toHeight\<close> that the stake database had reached.
\<close>

theorem RewindStakeDB_at_or_above_and_negative:
  "(int (sdb_height s) \<le> toHeight \<longrightarrow> RewindStakeDB env toHeight s = (s, int (sdb_height s), None))
   \<and> (toHeight < 0 \<longrightarrow> RewindStakeDB env toHeight s = RewindStakeDB env 0 s)
   \<and> (RewindStakeDB env toHeight s = (s', h, err) \<longrightarrow>
        h = int (sdb_height s') \<and> 0 \<le> h \<and> err \<noteq> Some NoBlockToDisconnect
        \<and> sdb_height s' \<le> sdb_height s
        \<and> (toHeight \<le> int (sdb_height s) \<longrightarrow> toHeight \<le> h))"
proof (intro conjI impI)
  assume "int (sdb_height s) \<le> toHeight"
  then show "RewindStakeDB env toHeight s = (s, int (sdb_height s), None)"
    by (simp add: RewindStakeDB_def rewind_loop_noop)
next
  assume "toHeight < 0"
  then show "RewindStakeDB env toHeight s = RewindStakeDB env 0 s"
    by (simp add: RewindStakeDB_def)
next
  assume r: "RewindStakeDB env toHeight s = (s', h, err)"
  then have "rewind_loop env (if toHeight < 0 then 0 else toHeight) s = (s', h, err)"
    by (simp add: RewindStakeDB_def)
  from rewind_loop_result[OF _ this]
  have *: "h = int (sdb_height s') \<and> err \<noteq> Some NoBlockToDisconnect \<and> sdb_height s' \<le> sdb_height s
     \<and> ((if toHeight < 0 then 0 else toHeight) \<le> int (sdb_height s)
          \<longrightarrow> (if toHeight < 0 then 0 else toHeight) \<le> int (sdb_height s'))"
    by simp
  then show "h = int (sdb_height s')" "err \<noteq> Some NoBlockToDisconnect" "sdb_height s' \<le> sdb_height s"
    by simp_all
  from * show "0 \<le> h" by simp
  { assume "toHeight \<le> int (sdb_height s)"
    with * show "toHeight \<le> h" by (auto split: if_splits) }
qed

theorem RewindStakeDB_witness:
  "RewindStakeDB (calm_env 0) 7 \<lparr>sdb_height = 5\<rparr> = (\<lparr>sdb_height = 5\<rparr>, 5, None)
   \<and> RewindStakeDB (calm_env 0) (- 3) \<lparr>sdb_height = 5\<rparr> = RewindStakeDB (calm_env 0) 0 \<lparr>sdb_height = 5\<rparr>
   \<and> RewindStakeDB (calm_env 0) (- 3) \<lparr>sdb_height = 5\<rparr> = (\<lparr>sdb_height = 0\<rparr>, 0, None)
   \<and> (None :: unit sdb_error option) \<noteq> Some NoBlockToDisconnect"
proof -
  have e: "RewindStakeDB (calm_env 0) (- 3) \<lparr>sdb_height = 5\<rparr> = (\<lparr>sdb_height = 0\<rparr>, 0, None)"
    by (simp add: RewindStakeDB_def rewind_loop_complete calm_env_def)
  from RewindStakeDB_at_or_above_and_negative
         [of "\<lparr>sdb_height = 5\<rparr>" 7 "calm_env 0" "\<lparr>sdb_height = 5\<rparr>" 5 None]
  have a: "RewindStakeDB (calm_env 0) 7 \<lparr>sdb_height = 5\<rparr> = (\<lparr>sdb_height = 5\<rparr>, 5, None)"
    by simp
  from RewindStakeDB_at_or_above_and_negative
         [of "\<lparr>sdb_height = 5\<rparr>" "- 3" "calm_env 0" "\<lparr>sdb_height = 0\<rparr>" 0 None] e
  have b: "RewindStakeDB (calm_env 0) (- 3) \<lparr>sdb_height = 5\<rparr> = RewindStakeDB (calm_env 0) 0 \<lparr>sdb_height = 5\<rparr>"
    and c: "(None :: unit sdb_error option) \<noteq> Some NoBlockToDisconnect"
    by simp_all
  from a b c e show ?thesis by simp
qed


paragraph \<open>One pass of the block loop\<close>

lemma pass_post_update_height:
  assumes la: "locals_agree st" and c: "committed (loop_db st) (loop_i st)"
    and r: "ret = loop_i st - 1 \<or> ret = loop_i st"
    and u: "update_height env ret st = (fl, st')"
  shows "(fl = Next \<and> loop_inv st' \<and> loop_i st' = loop_i st + 1 \<and> loop_db st' = loop_db st)
       \<or> (\<exists>x. fl = Stop (Returned ret (Some (ErrRpcGetBestBlock x))) \<and> st' = st)"
proof (cases "GetBestBlock_loop env (loop_i st)")
  case (Inl x)
  with u show ?thesis by (auto simp: update_height_def)
next
  case (Inr h)
  with u have "fl = Next" "st' = st\<lparr>loop_height := h, loop_i := loop_i st + 1\<rparr>"
    by (auto simp: update_height_def)
  with la c show ?thesis
    by (auto simp: loop_inv_def locals_agree_def committed_def split: option.splits)
qed








lemma update_height_stdout:
  "update_height env ret st = (fl, st') \<Longrightarrow> stdout (loop_db st') = stdout (loop_db st)"
  by (auto simp: update_height_def split: sum.splits)

lemma store_block_stdout:
  "store_block env st = (fl, st') \<Longrightarrow> stdout (loop_db st') = stdout (loop_db st)"
  unfolding store_block_def
  by (auto split: if_splits option.splits sum.splits dest!: update_height_stdout)

lemma connect_block_stdout:
  "connect_block env st = (fl, st') \<Longrightarrow> stdout (loop_db st') = stdout (loop_db st)"
  unfolding connect_block_def ConnectBlock_def
  by (auto split: if_splits option.splits sum.splits dest!: store_block_stdout)

lemma resync_pass_prints:
  "resync_pass env master fetchToHeight st = (fl, st') \<Longrightarrow>
     stdout (loop_db st') =
       stdout (loop_db st) @ (if \<not> ctx_Done_top env (loop_i st) \<and> loop_i st = 764 then [''ttt''] else [])"
  unfolding resync_pass_def Let_def
  by (auto split: if_splits option.splits dest!: connect_block_stdout)

paragraph \<open>The block loop\<close>

lemma resync_loop_stops:
  "loop_i st \<le> loop_height st \<Longrightarrow> resync_pass env master fetchToHeight st = (Stop out, st') \<Longrightarrow>
   resync_loop (Suc n) env master fetchToHeight st = Some (Stop out, st')"
  by simp


paragraph \<open>Startup\<close>












subsection \<open>Vote insertion\<close>

lemma first_index_Some: "first_index h ms = Some k \<Longrightarrow> k < length ms \<and> ms ! k = h"
proof (induction ms arbitrary: k)
  case Nil
  then show ?case by simp
next
  case (Cons m ms)
  then show ?case by (cases "m = h") auto
qed

lemma first_index_None: "first_index h ms = None \<Longrightarrow> h \<notin> set ms"
  by (induction ms) (auto split: if_splits)

lemma mset_swap_remove:
  assumes "k < length ms"
  shows "mset (butlast (ms[k := last ms])) = mset ms - {#ms ! k#}"
proof -
  from assms have ne: "ms \<noteq> []" by auto
  then obtain bs l where ms: "ms = bs @ [l]" by (metis append_butlast_last_id)
  show ?thesis
  proof (cases "k < length bs")
    case True
    then have "mset (butlast (ms[k := last ms])) = mset (bs[k := l])"
      by (simp add: ms list_update_append)
    also have "\<dots> = add_mset l (mset bs - {#bs ! k#})"
      using True by (simp add: mset_update)
    also have "\<dots> = mset ms - {#ms ! k#}"
      using True by (simp add: ms nth_append)
    finally show ?thesis .
  next
    case False
    with assms have "k = length bs" by (simp add: ms)
    then show ?thesis by (simp add: ms)
  qed
qed

lemma mset_remove_spent: "mset (remove_spent h ms) = mset ms - {#h#}"
proof (cases "first_index h ms")
  case None
  then have "h \<notin> set ms" by (rule first_index_None)
  with None show ?thesis by (simp add: remove_spent_def)
next
  case (Some k)
  from first_index_Some[OF Some] mset_swap_remove[of k ms] Some
  show ?thesis by (simp add: remove_spent_def)
qed

lemma length_remove_spent: "length (remove_spent h ms) \<le> length ms"
  by (auto simp: remove_spent_def split: option.splits)

lemma vote_rows_append [simp]: "vote_rows (a @ b) = vote_rows a @ vote_rows b"
  by (induction a rule: vote_rows.induct) auto

lemma miss_rows_append [simp]: "miss_rows (a @ b) = miss_rows a @ miss_rows b"
  by (induction a rule: miss_rows.induct) auto

lemma insert_agendas_trace:
  "insert_agendas env tx i j choices tr = Inr tr' \<Longrightarrow>
     vote_rows tr' = vote_rows tr \<and> miss_rows tr' = miss_rows tr \<and> Commit \<notin> set tr' - set tr"
proof (induction choices arbitrary: j tr)
  case Nil
  then show ?case by simp
next
  case (Cons val choices)
  then show ?case
    by (fastforce simp: Let_def split: sum.splits option.splits prod.splits)
qed

lemma insert_vote_Inr:
  assumes "insert_vote env fTx checked upd cand i tx msgTx st = Inr st'"
  shows "2 \<le> length (TxIn msgTx)
     \<and> spentTicketHashes st' = spentTicketHashes st @ [spent_ticket msgTx]
     \<and> misses st' = remove_spent (spent_ticket msgTx) (misses st)
     \<and> map vote_ticket_hash (vote_rows (trace st')) = map vote_ticket_hash (vote_rows (trace st)) @ [spent_ticket msgTx]
     \<and> map vote_reward (vote_rows (trace st')) =
         map vote_reward (vote_rows (trace st)) @ [Amount_ToCoin env (stakebase_value msgTx)]
     \<and> miss_rows (trace st') = miss_rows (trace st)
     \<and> (Commit \<notin> set (trace st) \<longrightarrow> Commit \<notin> set (trace st'))"
proof -
  from assms obtain in0 in1 ins where tin: "TxIn msgTx = in0 # in1 # ins"
    by (auto simp: insert_vote_def Let_def split: sum.splits prod.splits list.splits)
  then have sp: "spent_ticket msgTx = PreviousOutPoint_Hash in1" "stakebase_value msgTx = ValueIn in0"
    by (simp_all add: spent_ticket_def stakebase_value_def)
  have ag: "\<And>choices tr tr'. insert_agendas env tx i 0 choices tr = Inr tr' \<Longrightarrow>
     vote_rows tr' = vote_rows tr \<and> miss_rows tr' = miss_rows tr \<and> (Commit \<notin> set tr \<longrightarrow> Commit \<notin> set tr')"
    using insert_agendas_trace by blast
  from assms tin show ?thesis
    unfolding insert_vote_def Let_def sp
    by (auto split: sum.splits prod.splits option.splits scan.splits if_splits dest!: ag)
qed

lemma vote_loop_Inr:
  "vote_loop env fTx checked upd cand i voteTxs voteMsgTxs st = Inr st' \<Longrightarrow>
     length voteTxs \<le> length voteMsgTxs
     \<and> (\<forall>m \<in> set (take (length voteTxs) voteMsgTxs). 2 \<le> length (TxIn m))
     \<and> spentTicketHashes st' = spentTicketHashes st @ map spent_ticket (take (length voteTxs) voteMsgTxs)
     \<and> mset (misses st') = mset (misses st) - mset (map spent_ticket (take (length voteTxs) voteMsgTxs))
     \<and> map vote_ticket_hash (vote_rows (trace st')) =
         map vote_ticket_hash (vote_rows (trace st)) @ map spent_ticket (take (length voteTxs) voteMsgTxs)
     \<and> map vote_reward (vote_rows (trace st')) =
         map vote_reward (vote_rows (trace st))
           @ map (\<lambda>m. Amount_ToCoin env (stakebase_value m)) (take (length voteTxs) voteMsgTxs)
     \<and> miss_rows (trace st') = miss_rows (trace st)
     \<and> (Commit \<notin> set (trace st) \<longrightarrow> Commit \<notin> set (trace st'))"
proof (induction env fTx checked upd cand i voteTxs voteMsgTxs st rule: vote_loop.induct)
  case (1 env fTx checked upd cand i voteMsgTxs st)
  then show ?case by simp
next
  case (2 env fTx checked upd cand i tx voteTxs st)
  then show ?case by simp
next
  case (3 env fTx checked upd cand i tx voteTxs msgTx voteMsgTxs st)
  from "3.prems" obtain st1 where
    one: "insert_vote env fTx checked upd cand i tx msgTx st = Inr st1"
    and rest: "vote_loop env fTx checked upd cand (Suc i) voteTxs voteMsgTxs st1 = Inr st'"
    by (auto split: sum.splits)
  note a = insert_vote_Inr[OF one]
  note b = "3.IH"[OF one rest]
  from a b show ?case by (simp add: mset_remove_spent)
qed

lemma choose_votes_Chosen:
  "choose_votes dbTxns msgTxs voteTxs voteMsgTxs = (Chosen vt vm :: 'e chosen) \<Longrightarrow>
     vt = voteTxs @ filter isSSGen dbTxns
     \<and> vm = voteMsgTxs @ map snd (filter (\<lambda>p. isSSGen (fst p)) (zip dbTxns msgTxs))
     \<and> length (filter isSSGen dbTxns) = length (filter (\<lambda>p. isSSGen (fst p)) (zip dbTxns msgTxs))
     \<and> (\<forall>p \<in> set (filter (\<lambda>p. isSSGen (fst p)) (zip dbTxns msgTxs)). TxID (fst p) = TxHash (snd p))"
proof (induction dbTxns msgTxs voteTxs voteMsgTxs rule: choose_votes.induct)
  case (1 msgTxs voteTxs voteMsgTxs)
  then show ?case by simp
next
  case (2 tx dbTxns msgTxs voteTxs voteMsgTxs)
  show ?case
  proof (cases "TxType tx = TxTypeSSGen")
    case True
    with "2.prems" obtain m rest where ms: "msgTxs = m # rest" and id: "TxID tx = TxHash m"
      and r: "choose_votes dbTxns rest (voteTxs @ [tx]) (voteMsgTxs @ [m]) = (Chosen vt vm :: 'e chosen)"
      by (auto split: list.splits if_splits)
    from "2.IH"(1)[OF True ms _ r] id True ms show ?thesis
      by (auto simp: isSSGen_def)
  next
    case False
    with "2.prems" have r: "choose_votes dbTxns (drop 1 msgTxs) voteTxs voteMsgTxs = (Chosen vt vm :: 'e chosen)"
      by simp
    from "2.IH"(2)[OF False r] False show ?thesis
      by (cases msgTxs) (auto simp: isSSGen_def)
  qed
qed

lemma choose_votes_none:
  "\<forall>tx \<in> set dbTxns. TxType tx \<noteq> TxTypeSSGen \<Longrightarrow>
     choose_votes dbTxns msgTxs voteTxs voteMsgTxs = Chosen voteTxs voteMsgTxs"
  by (induction dbTxns msgTxs voteTxs voteMsgTxs rule: choose_votes.induct) auto

lemma insert_misses_Inr:
  "insert_misses env msgBlock i ms hm tr = Inr (hm', tr') \<Longrightarrow>
     map miss_ticket_hash (miss_rows tr') = map miss_ticket_hash (miss_rows tr) @ ms
     \<and> vote_rows tr' = vote_rows tr
     \<and> fst ` set hm' \<subseteq> fst ` set hm \<union> set ms
     \<and> ((\<forall>k. Scan_miss env k \<noteq> ErrNoRows) \<longrightarrow> fst ` set hm' = fst ` set hm \<union> set ms)"
proof (induction ms arbitrary: i hm tr)
  case Nil
  then show ?case by auto
next
  case (Cons m ms)
  define tr1 where "tr1 = tr @ [QueryRow_miss \<lparr> miss_height = Header_Height msgBlock,
      miss_block_hash = MsgBlock_BlockHash msgBlock,
      miss_candidate_block_hash = Header_PrevBlock msgBlock, miss_ticket_hash = m \<rparr>]"
  have rows: "map miss_ticket_hash (miss_rows tr1) = map miss_ticket_hash (miss_rows tr) @ [m]"
    "vote_rows tr1 = vote_rows tr"
    by (simp_all add: tr1_def)
  show ?case
  proof (cases "Scan_miss env i")
    case (Row rowid)
    with Cons.prems have "insert_misses env msgBlock (Suc i) ms (AList.update m rowid hm) tr1 = Inr (hm', tr')"
      by (simp add: Let_def tr1_def)
    from Cons.IH[OF this] rows
    have "map miss_ticket_hash (miss_rows tr') = map miss_ticket_hash (miss_rows tr) @ m # ms"
      "vote_rows tr' = vote_rows tr"
      "fst ` set hm' \<subseteq> ({m} \<union> fst ` set hm) \<union> set ms"
      "(\<forall>k. Scan_miss env k \<noteq> ErrNoRows) \<longrightarrow> fst ` set hm' = ({m} \<union> fst ` set hm) \<union> set ms"
      by (simp_all add: dom_update)
    then show ?thesis by auto
  next
    case ErrNoRows
    with Cons.prems have "insert_misses env msgBlock (Suc i) ms hm tr1 = Inr (hm', tr')"
      by (simp add: Let_def tr1_def)
    from Cons.IH[OF this] rows ErrNoRows show ?thesis by auto
  next
    case (ScanErr e)
    with Cons.prems show ?thesis by (simp add: Let_def)
  qed
qed

lemma insert_agendas_Inl:
  "insert_agendas env tx i j choices tr = Inl (err, tr') \<Longrightarrow> Commit \<notin> set tr \<Longrightarrow> Commit \<notin> set tr'"
proof (induction choices arbitrary: j tr)
  case Nil
  then show ?case by simp
next
  case (Cons val choices)
  then show ?case
    by (fastforce simp: Let_def bail_def split: sum.splits option.splits prod.splits)
qed

lemma insert_vote_Inl:
  assumes "insert_vote env fTx checked upd cand i tx msgTx st = Inl (h, tr)" "Commit \<notin> set (trace st)"
  shows "Commit \<notin> set tr \<and> (\<forall>a b. h \<noteq> Crash (VotesPlusMisses a b))"
  using assms unfolding insert_vote_def Let_def
  by (auto simp: bail_def split: sum.splits prod.splits option.splits scan.splits if_splits list.splits
           dest: insert_agendas_Inl)

lemma vote_loop_Inl:
  "vote_loop env fTx checked upd cand i voteTxs voteMsgTxs st = Inl (h, tr) \<Longrightarrow> Commit \<notin> set (trace st) \<Longrightarrow>
     Commit \<notin> set tr \<and> (\<forall>a b. h \<noteq> Crash (VotesPlusMisses a b))"
proof (induction env fTx checked upd cand i voteTxs voteMsgTxs st rule: vote_loop.induct)
  case (1 env fTx checked upd cand i voteMsgTxs st)
  then show ?case by simp
next
  case (2 env fTx checked upd cand i tx voteTxs st)
  then show ?case by auto
next
  case (3 env fTx checked upd cand i tx voteTxs msgTx voteMsgTxs st)
  show ?case
  proof (cases "insert_vote env fTx checked upd cand i tx msgTx st")
    case (Inl x)
    with "3.prems" have "insert_vote env fTx checked upd cand i tx msgTx st = Inl (h, tr)" by simp
    from insert_vote_Inl[OF this "3.prems"(2)] show ?thesis .
  next
    case (Inr st1)
    with "3.prems" have r: "vote_loop env fTx checked upd cand (Suc i) voteTxs voteMsgTxs st1 = Inl (h, tr)"
      by simp
    from insert_vote_Inr[OF Inr] "3.prems"(2) have "Commit \<notin> set (trace st1)" by simp
    from "3.IH"[OF Inr r this] show ?thesis .
  qed
qed

lemma choose_votes_panic:
  "choose_votes dbTxns msgTxs voteTxs voteMsgTxs = ChoosePanic p \<Longrightarrow> p = IndexOutOfRange"
  by (induction dbTxns msgTxs voteTxs voteMsgTxs rule: choose_votes.induct)
     (auto split: if_splits list.splits)

lemma votes_phase_Done:
  assumes "votes_phase env dbTxns fTx msgBlock checked upd = Done res tr"
  shows "Commit \<notin> set tr \<and> (\<forall>a b. res \<noteq> Panic (VotesPlusMisses a b))"
proof -
  have init: "Commit \<notin> set (trace \<lparr> ids = [], spentTicketHashes = [], spentTicketDbIDs = [],
               misses = Validators msgBlock,
               trace = [Begin, Prepare_votes checked upd, Prepare_agendas checked] \<rparr>)"
    by simp
  from assms show ?thesis
    unfolding votes_phase_def
    by (auto simp: nil_results_def split: chosen.splits if_splits option.splits sum.splits prod.splits halt.splits
          dest!: vote_loop_Inl[OF _ init] choose_votes_panic)
qed

lemma votes_phase_Reached:
  assumes "votes_phase env dbTxns fTx msgBlock checked upd = Reached vt st"
  shows "vt = filter isSSGen dbTxns \<and> vt \<noteq> []
     \<and> (\<exists>vm. vm = map snd (filter (\<lambda>p. isSSGen (fst p)) (zip dbTxns (STransactions msgBlock)))
          \<and> length vm = length vt
          \<and> (\<forall>m \<in> set vm. 2 \<le> length (TxIn m))
          \<and> spentTicketHashes st = map spent_ticket vm
          \<and> mset (misses st) = mset (Validators msgBlock) - mset (map spent_ticket vm)
          \<and> map vote_ticket_hash (vote_rows (trace st)) = map spent_ticket vm
          \<and> map vote_reward (vote_rows (trace st)) = map (\<lambda>m. Amount_ToCoin env (stakebase_value m)) vm)
     \<and> miss_rows (trace st) = [] \<and> Commit \<notin> set (trace st)"
proof -
  from assms obtain vm where ch: "choose_votes dbTxns (STransactions msgBlock) [] [] = (Chosen vt vm :: 'a chosen)"
    and ne: "vt \<noteq> []"
    and vl: "vote_loop env fTx checked upd (Header_PrevBlock msgBlock) 0 vt vm
             \<lparr> ids = [], spentTicketHashes = [], spentTicketDbIDs = [],
               misses = Validators msgBlock,
               trace = [Begin, Prepare_votes checked upd, Prepare_agendas checked] \<rparr> = Inr st"
    unfolding votes_phase_def
    by (auto split: chosen.splits if_splits option.splits sum.splits prod.splits halt.splits)
  from choose_votes_Chosen[OF ch] have c: "vt = filter isSSGen dbTxns"
    "vm = map snd (filter (\<lambda>p. isSSGen (fst p)) (zip dbTxns (STransactions msgBlock)))"
    "length vm = length vt" by simp_all
  from vote_loop_Inr[OF vl] c(3) have
    "\<forall>m \<in> set vm. 2 \<le> length (TxIn m)"
    "spentTicketHashes st = map spent_ticket vm"
    "mset (misses st) = mset (Validators msgBlock) - mset (map spent_ticket vm)"
    "map vote_ticket_hash (vote_rows (trace st)) = map spent_ticket vm"
    "map vote_reward (vote_rows (trace st)) = map (\<lambda>m. Amount_ToCoin env (stakebase_value m)) vm"
    "miss_rows (trace st) = []" "Commit \<notin> set (trace st)"
    by simp_all
  with c ne show ?thesis by blast
qed

lemma set_of_mset_diff_distinct:
  assumes "distinct xs" "mset ys = mset xs - mset zs"
  shows "set ys = set xs - set zs"
proof -
  have "set ys = set_mset (mset xs - mset zs)" using assms(2) by (metis set_mset_mset)
  also have "\<dots> = set xs - set zs"
  proof (rule set_eqI)
    fix x
    have le1: "count (mset xs) x \<le> 1" using assms(1) by (simp add: distinct_count_atmost_1)
    have "x \<in># mset xs - mset zs \<longleftrightarrow> count (mset zs) x < count (mset xs) x"
      by (simp add: in_diff_count)
    also have "\<dots> \<longleftrightarrow> 0 < count (mset xs) x \<and> count (mset zs) x = 0"
      using le1 by arith
    also have "\<dots> \<longleftrightarrow> x \<in># mset xs \<and> x \<notin># mset zs"
      by (simp only: count_greater_zero_iff count_eq_zero_iff)
    finally show "x \<in> set_mset (mset xs - mset zs) \<longleftrightarrow> x \<in> set xs - set zs"
      by simp
  qed
  finally show ?thesis .
qed

lemma insert_misses_Inl:
  "insert_misses env msgBlock i ms hm t = Inl (e, t') \<Longrightarrow> Commit \<in> set t' \<Longrightarrow> Commit \<in> set t"
proof (induction ms arbitrary: i hm t)
  case Nil
  then show ?case by simp
next
  case (Cons m ms)
  define t1 where "t1 = t @ [QueryRow_miss \<lparr> miss_height = Header_Height msgBlock,
      miss_block_hash = MsgBlock_BlockHash msgBlock,
      miss_candidate_block_hash = Header_PrevBlock msgBlock, miss_ticket_hash = m \<rparr>]"
  have t1: "Commit \<in> set t1 \<Longrightarrow> Commit \<in> set t" by (simp add: t1_def)
  show ?case
  proof (cases "Scan_miss env i")
    case (Row rowid)
    with Cons.prems(1) have "insert_misses env msgBlock (Suc i) ms (AList.update m rowid hm) t1 = Inl (e, t')"
      by (simp add: Let_def t1_def)
    from Cons.IH[OF this Cons.prems(2)] t1 show ?thesis by simp
  next
    case ErrNoRows
    with Cons.prems(1) have "insert_misses env msgBlock (Suc i) ms hm t1 = Inl (e, t')"
      by (simp add: Let_def t1_def)
    from Cons.IH[OF this Cons.prems(2)] t1 show ?thesis by simp
  next
    case (ScanErr x)
    with Cons.prems have "t' = t1 @ [Rollback]" by (simp add: Let_def t1_def)
    with Cons.prems(2) t1 show ?thesis by simp
  qed
qed

lemma misses_phase_result:
  "misses_phase env msgBlock checked upd vt st = (res, tr) \<Longrightarrow>
    (\<exists>e. res = nil_results (Some e) \<and> Commit \<notin> set tr - set (trace st))
    \<or> (\<exists>hm. res = Results (ids st) vt (spentTicketHashes st) (spentTicketDbIDs st) hm
                 (map_option ErrOther (Commit_err env))
         \<and> map miss_ticket_hash (miss_rows tr) = map miss_ticket_hash (miss_rows (trace st)) @ misses st
         \<and> vote_rows tr = vote_rows (trace st)
         \<and> fst ` set hm \<subseteq> set (misses st)
         \<and> ((\<forall>k. Scan_miss env k \<noteq> ErrNoRows) \<longrightarrow> fst ` set hm = set (misses st)))"
proof (cases "length (misses st) > 0")
  case False
  then show "misses_phase env msgBlock checked upd vt st = (res, tr) \<Longrightarrow> ?thesis"
    by (auto simp: misses_phase_def)
next
  case True
  assume a: "misses_phase env msgBlock checked upd vt st = (res, tr)"
  show ?thesis
  proof (cases "Prepare_misses_err env")
    case (Some e)
    with True a show ?thesis by (auto simp: misses_phase_def)
  next
    case None
    show ?thesis
    proof (cases "insert_misses env msgBlock 0 (misses st) [] (trace st @ [Prepare_misses checked upd])")
      case (Inl x)
      obtain e tr1 where x: "x = (e, tr1)" by (cases x)
      have "Commit \<notin> set tr1 - set (trace st)"
        using insert_misses_Inl[OF Inl[unfolded x]] by auto
      with True None Inl x a show ?thesis by (auto simp: misses_phase_def)
    next
      case (Inr y)
      obtain hm tr1 where y: "y = (hm, tr1)" by (cases y)
      from insert_misses_Inr[OF Inr[unfolded y]] True None Inr y a show ?thesis
        by (auto simp: misses_phase_def)
    qed
  qed
qed

text \<open>
  C10. When no transaction of \<open>dbTxns\<close> has type SSGen, \<open>InsertVotes\<close> returns
  all-nil results with a nil error, and the trace of database calls is empty: no
  transaction is begun and no statement is prepared or run.
\<close>

theorem InsertVotes_no_votes:
  assumes "\<forall>tx \<in> set dbTxns. TxType tx \<noteq> TxTypeSSGen"
  shows "InsertVotes env dbTxns fTx msgBlock checked upd = (Results [] [] [] [] [] None, [])"
  by (simp add: InsertVotes_def votes_phase_def nil_results_def choose_votes_none[OF assms])

theorem InsertVotes_no_votes_witness:
  "InsertVotes votes_env_ok [sample_tx 0 ''a'', sample_tx 1 ''b''] None
     (sample_block [sample_vote ''a'' ''t1'', sample_vote ''b'' ''t2''] [''t1'', ''t2'']) True False
   = (Results [] [] [] [] [] None, [])"
proof -
  have "\<forall>tx \<in> set [sample_tx 0 ''a'', sample_tx 1 ''b'']. TxType tx \<noteq> TxTypeSSGen"
    by (simp add: sample_tx_def TxTypeSSGen_def)
  from InsertVotes_no_votes[OF this] show ?thesis .
qed


text \<open>
  C5. Whenever \<open>InsertVotes\<close> commits: the votes are the SSGen transactions of
  \<open>dbTxns\<close> with the stake transactions of the block at the same positions, each with
  at least two inputs; the returned spent-ticket hashes, and the ticket hashes of the
  rows given to the vote statement, are the previous-outpoint hashes of input 1, in
  order; the rewards of those rows are \<open>ToCoin\<close> of the value of input 0; and the
  tickets given to the miss statement are the validators with one occurrence taken out
  for each spent ticket, which for a validator list without repetition is the set of
  validators minus the set of spent tickets. The keys of the returned miss map are
  among them, and are all of them when no miss insert answers \<open>ErrNoRows\<close>.
\<close>

theorem InsertVotes_spent_tickets_and_misses:
  assumes r: "InsertVotes env dbTxns fTx msgBlock checked upd = (res, tr)" and c: "Commit \<in> set tr"
  shows "\<exists>ids voteMsgTxs spent dbids missMap err.
     res = Results ids (filter isSSGen dbTxns) spent dbids missMap err
     \<and> voteMsgTxs = map snd (filter (\<lambda>p. isSSGen (fst p)) (zip dbTxns (STransactions msgBlock)))
     \<and> length voteMsgTxs = length (filter isSSGen dbTxns)
     \<and> (\<forall>m \<in> set voteMsgTxs. 2 \<le> length (TxIn m))
     \<and> spent = map spent_ticket voteMsgTxs
     \<and> map vote_ticket_hash (vote_rows tr) = map spent_ticket voteMsgTxs
     \<and> map vote_reward (vote_rows tr) = map (\<lambda>m. Amount_ToCoin env (stakebase_value m)) voteMsgTxs
     \<and> mset (map miss_ticket_hash (miss_rows tr)) = mset (Validators msgBlock) - mset spent
     \<and> (distinct (Validators msgBlock) \<longrightarrow>
          set (map miss_ticket_hash (miss_rows tr)) = set (Validators msgBlock) - set spent)
     \<and> fst ` set missMap \<subseteq> set (map miss_ticket_hash (miss_rows tr))
     \<and> ((\<forall>k. Scan_miss env k \<noteq> ErrNoRows) \<longrightarrow>
          fst ` set missMap = set (map miss_ticket_hash (miss_rows tr)))"
proof (cases "votes_phase env dbTxns fTx msgBlock checked upd")
  case (Done res1 tr1)
  with r have "tr = tr1" by (simp add: InsertVotes_def)
  with votes_phase_Done[OF Done] c show ?thesis by simp
next
  case (Reached vt st)
  note vr = votes_phase_Reached[OF Reached]
  then obtain vm where vm: "vm = map snd (filter (\<lambda>p. isSSGen (fst p)) (zip dbTxns (STransactions msgBlock)))"
          "length vm = length vt"
          "\<forall>m \<in> set vm. 2 \<le> length (TxIn m)"
          "spentTicketHashes st = map spent_ticket vm"
          "mset (misses st) = mset (Validators msgBlock) - mset (map spent_ticket vm)"
          "map vote_ticket_hash (vote_rows (trace st)) = map spent_ticket vm"
          "map vote_reward (vote_rows (trace st)) = map (\<lambda>m. Amount_ToCoin env (stakebase_value m)) vm"
    by blast
  from vr have vt: "vt = filter isSSGen dbTxns" and mr: "miss_rows (trace st) = []"
    and nc: "Commit \<notin> set (trace st)" by simp_all
  show ?thesis
  proof (cases "length (Validators msgBlock) > 0 \<and> length (ids st) + length (misses st) \<noteq> 5")
    case True
    with r Reached have "tr = trace st @ [Rollback]" by (simp add: InsertVotes_def)
    with nc c show ?thesis by simp
  next
    case False
    with r Reached have mp: "misses_phase env msgBlock checked upd vt st = (res, tr)"
      by (auto simp: InsertVotes_def)
    from misses_phase_result[OF mp] c nc
    obtain hm where hm: "res = Results (ids st) vt (spentTicketHashes st) (spentTicketDbIDs st) hm
                 (map_option ErrOther (Commit_err env))"
         "map miss_ticket_hash (miss_rows tr) = map miss_ticket_hash (miss_rows (trace st)) @ misses st"
         "vote_rows tr = vote_rows (trace st)"
         "fst ` set hm \<subseteq> set (misses st)"
         "(\<forall>k. Scan_miss env k \<noteq> ErrNoRows) \<longrightarrow> fst ` set hm = set (misses st)"
      by auto
    from hm(2) mr have m: "map miss_ticket_hash (miss_rows tr) = misses st" by simp
    have d: "distinct (Validators msgBlock) \<longrightarrow>
          set (misses st) = set (Validators msgBlock) - set (map spent_ticket vm)"
      using set_of_mset_diff_distinct[OF _ vm(5)] by blast
    from hm vm vt m d show ?thesis by simp
  qed
qed

theorem InsertVotes_spent_tickets_and_misses_witness:
  "\<exists>tr. InsertVotes votes_env_ok [sample_tx 2 ''v1'', sample_tx 0 ''r'', sample_tx 2 ''v2''] None
       (sample_block [sample_vote ''v1'' ''t2'', sample_vote ''r'' ''x'', sample_vote ''v2'' ''t4'']
          [''t1'', ''t2'', ''t3'', ''t4'', ''t5'']) False False
     = (Results [100, 101] [sample_tx 2 ''v1'', sample_tx 2 ''v2''] [''t2'', ''t4''] [0, 0]
          [(''t1'', 200), (''t5'', 201), (''t3'', 202)] None, tr)
   \<and> Commit \<in> set tr
   \<and> map vote_ticket_hash (vote_rows tr) = [''t2'', ''t4'']
   \<and> map vote_reward (vote_rows tr) = [7, 7]
   \<and> set (map miss_ticket_hash (miss_rows tr)) = {''t1'', ''t3'', ''t5''}"
proof -
  define dbTxns where "dbTxns = [sample_tx 2 ''v1'', sample_tx 0 ''r'', sample_tx 2 ''v2'']"
  define blk where "blk = sample_block [sample_vote ''v1'' ''t2'', sample_vote ''r'' ''x'', sample_vote ''v2'' ''t4'']
          [''t1'', ''t2'', ''t3'', ''t4'', ''t5'']"
  obtain res tr where r: "InsertVotes votes_env_ok dbTxns None blk False False = (res, tr)"
    by (cases "InsertVotes votes_env_ok dbTxns None blk False False")
  have ev: "fst (InsertVotes votes_env_ok dbTxns None blk False False)
      = Results [100, 101] [sample_tx 2 ''v1'', sample_tx 2 ''v2''] [''t2'', ''t4''] [0, 0]
          [(''t1'', 200), (''t5'', 201), (''t3'', 202)] None"
    unfolding dbTxns_def blk_def by code_simp
  have cm: "Commit \<in> set (snd (InsertVotes votes_env_ok dbTxns None blk False False))"
    unfolding dbTxns_def blk_def by code_simp
  from r cm have c: "Commit \<in> set tr" by simp
  from InsertVotes_spent_tickets_and_misses[OF r c] ev r
  have "map vote_ticket_hash (vote_rows tr) = [''t2'', ''t4'']"
    and "map vote_reward (vote_rows tr) = map (\<lambda>m. Amount_ToCoin votes_env_ok (stakebase_value m))
            (map snd (filter (\<lambda>p. isSSGen (fst p)) (zip dbTxns (STransactions blk))))"
    and "distinct (Validators blk) \<longrightarrow>
          set (map miss_ticket_hash (miss_rows tr)) = set (Validators blk) - set [''t2'', ''t4'']"
    by auto
  moreover have "map (\<lambda>m. Amount_ToCoin votes_env_ok (stakebase_value m))
            (map snd (filter (\<lambda>p. isSSGen (fst p)) (zip dbTxns (STransactions blk)))) = [7, 7]"
    unfolding dbTxns_def blk_def by code_simp
  moreover have "distinct (Validators blk)" "set (Validators blk) - set [''t2'', ''t4''] = {''t1'', ''t3'', ''t5''}"
    unfolding blk_def by (auto simp: sample_block_def)
  ultimately show ?thesis using r ev c unfolding dbTxns_def blk_def by auto
qed


lemma InsertVotes_guard:
  "(votes_phase env dbTxns fTx msgBlock checked upd = Reached vt vs \<longrightarrow>
      (InsertVotes env dbTxns fTx msgBlock checked upd
         = (Panic (VotesPlusMisses (length (ids vs)) (length (misses vs))), trace vs @ [Rollback]))
      = (Validators msgBlock \<noteq> [] \<and> length (ids vs) + length (misses vs) \<noteq> 5))
   \<and> (InsertVotes env dbTxns fTx msgBlock checked upd = (Panic (VotesPlusMisses a b), tr) \<longrightarrow>
        (\<exists>vt vs. votes_phase env dbTxns fTx msgBlock checked upd = Reached vt vs
           \<and> Validators msgBlock \<noteq> [] \<and> a = length (ids vs) \<and> b = length (misses vs) \<and> a + b \<noteq> 5
           \<and> tr = trace vs @ [Rollback] \<and> Commit \<notin> set tr))"
proof (intro conjI)
  show "votes_phase env dbTxns fTx msgBlock checked upd = Reached vt vs \<longrightarrow>
      (InsertVotes env dbTxns fTx msgBlock checked upd
         = (Panic (VotesPlusMisses (length (ids vs)) (length (misses vs))), trace vs @ [Rollback]))
      = (Validators msgBlock \<noteq> [] \<and> length (ids vs) + length (misses vs) \<noteq> 5)"
  proof
    assume re: "votes_phase env dbTxns fTx msgBlock checked upd = Reached vt vs"
    show "(InsertVotes env dbTxns fTx msgBlock checked upd
         = (Panic (VotesPlusMisses (length (ids vs)) (length (misses vs))), trace vs @ [Rollback]))
      = (Validators msgBlock \<noteq> [] \<and> length (ids vs) + length (misses vs) \<noteq> 5)"
    proof (cases "Validators msgBlock \<noteq> [] \<and> length (ids vs) + length (misses vs) \<noteq> 5")
      case True
      with re show ?thesis by (simp add: InsertVotes_def)
    next
      case False
      obtain res tr1 where mp: "misses_phase env msgBlock checked upd vt vs = (res, tr1)"
        by (cases "misses_phase env msgBlock checked upd vt vs")
      from misses_phase_result[OF mp] have "\<forall>p. res \<noteq> Panic p" by (auto simp: nil_results_def)
      with False re mp show ?thesis by (auto simp: InsertVotes_def)
    qed
  qed
next
  show "InsertVotes env dbTxns fTx msgBlock checked upd = (Panic (VotesPlusMisses a b), tr) \<longrightarrow>
        (\<exists>vt vs. votes_phase env dbTxns fTx msgBlock checked upd = Reached vt vs
           \<and> Validators msgBlock \<noteq> [] \<and> a = length (ids vs) \<and> b = length (misses vs) \<and> a + b \<noteq> 5
           \<and> tr = trace vs @ [Rollback] \<and> Commit \<notin> set tr)"
  proof
    assume p: "InsertVotes env dbTxns fTx msgBlock checked upd = (Panic (VotesPlusMisses a b), tr)"
    show "\<exists>vt vs. votes_phase env dbTxns fTx msgBlock checked upd = Reached vt vs
           \<and> Validators msgBlock \<noteq> [] \<and> a = length (ids vs) \<and> b = length (misses vs) \<and> a + b \<noteq> 5
           \<and> tr = trace vs @ [Rollback] \<and> Commit \<notin> set tr"
    proof (cases "votes_phase env dbTxns fTx msgBlock checked upd")
      case (Done res1 tr1)
      with p have "res1 = Panic (VotesPlusMisses a b)" by (simp add: InsertVotes_def)
      with votes_phase_Done[OF Done] show ?thesis by simp
    next
      case (Reached vt vs)
      from votes_phase_Reached[OF Reached] have nc: "Commit \<notin> set (trace vs)" by simp
      show ?thesis
      proof (cases "Validators msgBlock \<noteq> [] \<and> length (ids vs) + length (misses vs) \<noteq> 5")
        case True
        with p Reached nc show ?thesis by (auto simp: InsertVotes_def)
      next
        case False
        obtain res tr1 where mp: "misses_phase env msgBlock checked upd vt vs = (res, tr1)"
          by (cases "misses_phase env msgBlock checked upd vt vs")
        from misses_phase_result[OF mp] have "\<forall>p. res \<noteq> Panic p" by (auto simp: nil_results_def)
        with False p Reached mp show ?thesis by (auto simp: InsertVotes_def)
      qed
    qed
  qed
qed

subsection \<open>The guarded panic and the debug print\<close>

text \<open>
  C3. The guarded panic: once \<open>InsertVotes\<close> has run its vote loop to the end, it panics
  with the count of inserted votes (the row ids in \<open>ids\<close>) and of remaining misses,
  after a rollback and with nothing committed, exactly when the validator list is not
  empty and the two counts do not add up to 5; and it raises that panic nowhere else.
  The debug print: a pass of the block loop of \<open>resyncDB\<close> writes the line \<open>ttt\<close> to
  standard output exactly when it is the pass at height 764 (and got past the quit
  check), and writes nothing else.
\<close>

theorem guarded_panic_and_debug_print:
  "(votes_phase env dbTxns fTx msgBlock checked upd = Reached vt vs \<longrightarrow>
      (InsertVotes env dbTxns fTx msgBlock checked upd
         = (Panic (VotesPlusMisses (length (ids vs)) (length (misses vs))), trace vs @ [Rollback]))
      = (Validators msgBlock \<noteq> [] \<and> length (ids vs) + length (misses vs) \<noteq> 5))
   \<and> (InsertVotes env dbTxns fTx msgBlock checked upd = (Panic (VotesPlusMisses a b), tr) \<longrightarrow>
        (\<exists>vt vs. votes_phase env dbTxns fTx msgBlock checked upd = Reached vt vs
           \<and> Validators msgBlock \<noteq> [] \<and> a = length (ids vs) \<and> b = length (misses vs) \<and> a + b \<noteq> 5
           \<and> tr = trace vs @ [Rollback] \<and> Commit \<notin> set tr))
   \<and> (resync_pass senv master fetchToHeight st = (fl, st') \<longrightarrow>
        stdout (loop_db st') =
          stdout (loop_db st) @ (if \<not> ctx_Done_top senv (loop_i st) \<and> loop_i st = 764 then [''ttt''] else []))"
  using InsertVotes_guard[of env dbTxns fTx msgBlock checked upd vt vs a b tr]
    resync_pass_prints[of senv master fetchToHeight st fl st']
  by blast

theorem guarded_panic_and_debug_print_witness:
  "InsertVotes votes_env_ok [sample_tx 2 ''v1''] None
       (sample_block [sample_vote ''v1'' ''t2''] [''t1'', ''t2'', ''t3'']) False False
     = (Panic (VotesPlusMisses 1 2),
        [Begin, Prepare_votes False False, Prepare_agendas False,
         QueryRow_vote \<lparr> vote_height = 10, vote_tx_hash = ''v1'', vote_block_hash = ''b10'',
           vote_candidate_block_hash = ''b9'', vote_version = 4, vote_bits = 1, vote_block_valid = True,
           vote_ticket_hash = ''t2'', vote_ticket_tx_db_id = 0, vote_ticket_price = 50,
           vote_reward = 7, vote_is_mainchain = True \<rparr>,
         Rollback])
   \<and> stdout (loop_db (snd (resync_pass (calm_env 800) True 0 state_at_764))) = [''ttt'']
   \<and> stdout (loop_db (snd (resync_pass (calm_env 800) True 0 state_at_6))) = []"
proof -
  define dbTxns where "dbTxns = [sample_tx 2 ''v1'']"
  define blk where "blk = sample_block [sample_vote ''v1'' ''t2''] [''t1'', ''t2'', ''t3'']"
  define vs where "vs = \<lparr> ids = [100 :: uint64], spentTicketHashes = [''t2''], spentTicketDbIDs = [0 :: uint64],
      misses = [''t1'', ''t3''],
      trace = [Begin, Prepare_votes False False, Prepare_agendas False,
         QueryRow_vote \<lparr> vote_height = 10, vote_tx_hash = ''v1'', vote_block_hash = ''b10'',
           vote_candidate_block_hash = ''b9'', vote_version = 4, vote_bits = 1, vote_block_valid = True,
           vote_ticket_hash = ''t2'', vote_ticket_tx_db_id = 0, vote_ticket_price = (50 :: int64),
           vote_reward = 7, vote_is_mainchain = True \<rparr>] \<rparr>"
  have vp: "votes_phase votes_env_ok dbTxns None blk False False = Reached dbTxns vs"
    unfolding dbTxns_def blk_def vs_def by code_simp
  have g: "Validators blk \<noteq> [] \<and> length (ids vs) + length (misses vs) \<noteq> 5"
    by (simp add: blk_def vs_def sample_block_def)
  obtain fl7 st7 where p7: "resync_pass (calm_env 800) True 0 state_at_764 = (fl7, st7)"
    by (cases "resync_pass (calm_env 800) True 0 state_at_764")
  obtain fl6 st6 where p6: "resync_pass (calm_env 800) True 0 state_at_6 = (fl6, st6)"
    by (cases "resync_pass (calm_env 800) True 0 state_at_6")
  from guarded_panic_and_debug_print[of votes_env_ok dbTxns None blk False False dbTxns vs 0 0 "[]"
      "calm_env 800" True 0 state_at_764 fl7 st7] vp g p7
  have 1: "InsertVotes votes_env_ok dbTxns None blk False False
         = (Panic (VotesPlusMisses (length (ids vs)) (length (misses vs))), trace vs @ [Rollback])"
    and 2: "stdout (loop_db st7) = stdout (loop_db state_at_764)
         @ (if \<not> ctx_Done_top (calm_env 800) (loop_i state_at_764) \<and> loop_i state_at_764 = 764 then [''ttt''] else [])"
    by simp_all
  from guarded_panic_and_debug_print[of votes_env_ok dbTxns None blk False False dbTxns vs 0 0 "[]"
      "calm_env 800" True 0 state_at_6 fl6 st6] p6
  have 3: "stdout (loop_db st6) = stdout (loop_db state_at_6)
         @ (if \<not> ctx_Done_top (calm_env 800) (loop_i state_at_6) \<and> loop_i state_at_6 = 764 then [''ttt''] else [])"
    by simp
  from 1 have a: "InsertVotes votes_env_ok dbTxns None blk False False
     = (Panic (VotesPlusMisses 1 2), trace vs @ [Rollback])" by (simp add: vs_def)
  from 2 p7 have b: "stdout (loop_db (snd (resync_pass (calm_env 800) True 0 state_at_764))) = [''ttt'']"
    by (simp add: state_at_764_def calm_env_def db_at_def)
  from 3 p6 have c: "stdout (loop_db (snd (resync_pass (calm_env 800) True 0 state_at_6))) = []"
    by (simp add: state_at_6_def calm_env_def db_at_def)
  from a b c show ?thesis unfolding dbTxns_def blk_def vs_def by simp
qed


subsection \<open>Common ancestor of two chain tips\<close>
















subsection \<open>Spending linkage in the addresses table\<close>

lemma smr_funding: "ar_is_funding (set_matching_row s f i r) = ar_is_funding r"
  by (cases "is_funding_row_of f i r") (simp_all add: set_matching_row_def)

lemma smr_row_id: "ar_tx_vin_vout_row_id (set_matching_row s f i r) = ar_tx_vin_vout_row_id r"
  by (cases "is_funding_row_of f i r") (simp_all add: set_matching_row_def)

lemma smr_is: "is_funding_row_of f' i' (set_matching_row s f i r) = is_funding_row_of f' i' r"
  by (cases "is_funding_row_of f i r") (simp_all add: set_matching_row_def is_funding_row_of_def)

lemma smr_hit: "is_funding_row_of f i r \<Longrightarrow> ar_matching_tx_hash (set_matching_row s f i r) = s"
  by (simp add: set_matching_row_def)

lemma smr_miss: "\<not> is_funding_row_of f i r \<Longrightarrow> set_matching_row s f i r = r"
  by (simp add: set_matching_row_def)

lemma upsert_funding: "ar_is_funding (upsert_row new r) = ar_is_funding r"
  by (cases "conflicts new r") (simp_all add: upsert_row_def)

lemma upsert_row_id: "ar_tx_vin_vout_row_id (upsert_row new r) = ar_tx_vin_vout_row_id r"
  by (cases "conflicts new r") (simp_all add: upsert_row_def)

lemma upsert_keep: "\<not> ar_is_funding new \<Longrightarrow> ar_is_funding r \<Longrightarrow> upsert_row new r = r"
  by (auto simp add: upsert_row_def conflicts_def)

lemma upsert_filter:
  "\<not> ar_is_funding new \<Longrightarrow> filter ar_is_funding (map (upsert_row new) tbl) = filter ar_is_funding tbl"
  by (induction tbl) (simp_all add: upsert_funding upsert_keep)

lemma exec_insert_funding:
  assumes "\<not> ar_is_funding new" and "exec_insert c u new tbl = (rid, tbl1)"
  shows "filter ar_is_funding tbl1 = filter ar_is_funding tbl"
  using assms
  by (auto simp add: exec_insert_def upsert_filter split: option.splits if_splits)

lemma exec_insert_row:
  assumes "\<not> ar_is_funding new" and "exec_insert c u new tbl = (rid, tbl1)"
  shows "\<exists>r \<in> set tbl1. \<not> ar_is_funding r \<and> ar_tx_vin_vout_row_id r = ar_tx_vin_vout_row_id new"
proof (cases "if c then find (conflicts new) tbl else None")
  case None
  with assms(2) have "tbl1 = tbl @ [new\<lparr>ar_id := fresh_id tbl\<rparr>]"
    by (auto simp add: exec_insert_def)
  with assms(1) show ?thesis by simp
next
  case (Some old)
  then have "find (conflicts new) tbl = Some old" by (simp split: if_splits)
  then have old: "old \<in> set tbl" "conflicts new old"
    by (auto simp add: find_Some_iff)
  from old(2) assms(1) have o2: "\<not> ar_is_funding old" "ar_tx_vin_vout_row_id old = ar_tx_vin_vout_row_id new"
    by (simp_all add: conflicts_def)
  show ?thesis
  proof (cases u)
    case True
    with Some assms(2) have "tbl1 = map (upsert_row new) tbl" by (auto simp add: exec_insert_def)
    with old(1) have "upsert_row new old \<in> set tbl1" by simp
    with o2 show ?thesis by (metis upsert_funding upsert_row_id)
  next
    case False
    with Some assms(2) have "tbl1 = tbl" by (auto simp add: exec_insert_def)
    with old(1) o2 show ?thesis by blast
  qed
qed


lemma spending_args_sel:
  "ar_is_funding (spending_args a f s si vid v bt isf vm ty) = isf"
  "ar_tx_vin_vout_row_id (spending_args a f s si vid v bt isf vm ty) = vid"
  by (simp_all add: spending_args_def)

lemma insert_cases:
  assumes "insertSpendingAddressRow env f i t s si vid u c ue vm ty ufr bt tbl = (Inr n, tbl')"
    and "\<And>new rid tbl1. exec_insert c ue new tbl = (rid, tbl1) \<Longrightarrow>
           (if ufr then setSpendingForFundingOP env f i s si tbl1 else (Inr 0, tbl1)) = (Inr n, tbl') \<Longrightarrow>
           \<not> ar_is_funding new \<Longrightarrow> ar_tx_vin_vout_row_id new = vid \<Longrightarrow> P"
  shows P
  using assms(1)
  apply (auto simp add: insertSpendingAddressRow_def Let_def
              split: option.splits sum.splits vout_lookup.splits prod.splits)
  apply (rule assms(2), assumption, assumption, simp add: spending_args_sel, simp add: spending_args_sel)+
  done

lemma insert_ok:
  assumes "insertSpendingAddressRow env f i t s si vid u c ue vm ty ufr bt tbl = (Inr n, tbl')"
  shows "\<exists>tbl1. filter ar_is_funding tbl1 = filter ar_is_funding tbl \<and>
           (\<exists>r \<in> set tbl1. \<not> ar_is_funding r \<and> ar_tx_vin_vout_row_id r = vid) \<and>
           (if ufr
            then tbl' = map (set_matching_row s f i) tbl1 \<and>
                 n = int (length (filter (is_funding_row_of f i) tbl1))
            else n = 0 \<and> tbl' = tbl1)"
proof (rule insert_cases [OF assms])
  fix new rid tbl1
  assume ex: "exec_insert c ue new tbl = (rid, tbl1)"
    and fin: "(if ufr then setSpendingForFundingOP env f i s si tbl1 else (Inr 0, tbl1)) = (Inr n, tbl')"
    and new: "\<not> ar_is_funding new" "ar_tx_vin_vout_row_id new = vid"
  have a: "filter ar_is_funding tbl1 = filter ar_is_funding tbl"
    using exec_insert_funding [OF new(1) ex] .
  have b: "\<exists>r \<in> set tbl1. \<not> ar_is_funding r \<and> ar_tx_vin_vout_row_id r = vid"
    using exec_insert_row [OF new(1) ex] new(2) by simp
  have d: "if ufr
            then tbl' = map (set_matching_row s f i) tbl1 \<and>
                 n = int (length (filter (is_funding_row_of f i) tbl1))
            else n = 0 \<and> tbl' = tbl1"
    using fin
    by (auto simp add: setSpendingForFundingOP_def SetAddressMatchingTxHashForOutpoint_def
             split: option.splits if_splits)
  from a b d show "\<exists>tbl1. filter ar_is_funding tbl1 = filter ar_is_funding tbl \<and>
           (\<exists>r \<in> set tbl1. \<not> ar_is_funding r \<and> ar_tx_vin_vout_row_id r = vid) \<and>
           (if ufr
            then tbl' = map (set_matching_row s f i) tbl1 \<and>
                 n = int (length (filter (is_funding_row_of f i) tbl1))
            else n = 0 \<and> tbl' = tbl1)" by blast
qed

lemma funding_filter:
  "filter (is_funding_row_of f i) tbl = filter (is_funding_row_of f i) (filter ar_is_funding tbl)"
  by (induction tbl) (auto simp add: is_funding_row_of_def)

lemma smr_filter:
  "filter ar_is_funding (map (set_matching_row s f i) tbl) =
   map (set_matching_row s f i) (filter ar_is_funding tbl)"
  by (induction tbl) (simp_all add: smr_funding)

lemma set_spending_loop_inv:
  "set_spending_loop env iv vinDbIDs aru tot dbtx = Inr (aru', tot', dbtx') \<Longrightarrow>
   dbtx' = foldl apply_vin dbtx (spending_vins env vinDbIDs) \<and>
   length aru' = length aru \<and>
   (\<forall>k < iv. aru' ! k = aru ! k) \<and>
   (\<forall>k < length vinDbIDs. is_coinbase_vin env (vinDbIDs ! k) \<longrightarrow> aru' ! (iv + k) = aru ! (iv + k))"
proof (induction vinDbIDs arbitrary: iv aru tot dbtx)
  case Nil
  then show ?case by (simp add: spending_vins_def)
next
  case (Cons vinDbID vinDbIDs)
  from Cons.prems obtain vin where vin: "SelectVinVoutPairByID env vinDbID = Inr vin"
    by (cases "SelectVinVoutPairByID env vinDbID") auto
  show ?case
  proof (cases "zeroHashStringBytes = vin_prev_tx_hash vin")
    case True
    with Cons.prems vin
    have rec: "set_spending_loop env (Suc iv) vinDbIDs aru tot dbtx = Inr (aru', tot', dbtx')"
      by simp
    note ih = Cons.IH [OF rec]
    from True vin have sv: "spending_vins env (vinDbID # vinDbIDs) = spending_vins env vinDbIDs"
      by (simp add: spending_vins_def)
    have "\<forall>k < length (vinDbID # vinDbIDs). is_coinbase_vin env ((vinDbID # vinDbIDs) ! k) \<longrightarrow>
             aru' ! (iv + k) = aru ! (iv + k)"
    proof (intro allI impI)
      fix k assume k: "k < length (vinDbID # vinDbIDs)"
        and cb: "is_coinbase_vin env ((vinDbID # vinDbIDs) ! k)"
      show "aru' ! (iv + k) = aru ! (iv + k)"
      proof (cases k)
        case 0
        with ih show ?thesis by simp
      next
        case (Suc j)
        with k cb ih show ?thesis by simp
      qed
    qed
    with ih sv show ?thesis by simp
  next
    case False
    with Cons.prems vin obtain n dbtx1 where
        op: "setSpendingForFundingOP env (vin_prev_tx_hash vin) (vin_prev_tx_index vin)
               (vin_tx_hash vin) (vin_tx_index vin) dbtx = (Inr n, dbtx1)"
      and rec: "set_spending_loop env (Suc iv) vinDbIDs (aru[iv := n]) (tot + n) dbtx1 =
                  Inr (aru', tot', dbtx')"
      by (auto split: prod.splits sum.splits)
    from op have d1: "dbtx1 = apply_vin dbtx vin"
      by (auto simp add: setSpendingForFundingOP_def apply_vin_def split: option.splits prod.splits)
    note ih = Cons.IH [OF rec]
    from False vin have sv: "spending_vins env (vinDbID # vinDbIDs) = vin # spending_vins env vinDbIDs"
      by (simp add: spending_vins_def)
    from False vin have ncb: "\<not> is_coinbase_vin env vinDbID"
      by (simp add: is_coinbase_vin_def)
    have "\<forall>k < length (vinDbID # vinDbIDs). is_coinbase_vin env ((vinDbID # vinDbIDs) ! k) \<longrightarrow>
             aru' ! (iv + k) = aru ! (iv + k)"
    proof (intro allI impI)
      fix k assume k: "k < length (vinDbID # vinDbIDs)"
        and cb: "is_coinbase_vin env ((vinDbID # vinDbIDs) ! k)"
      show "aru' ! (iv + k) = aru ! (iv + k)"
      proof (cases k)
        case 0
        with cb ncb show ?thesis by simp
      next
        case (Suc j)
        with k cb ih have "aru' ! (Suc iv + j) = (aru[iv := n]) ! (Suc iv + j)" by simp
        with Suc show ?thesis by simp
      qed
    qed
    moreover have "\<forall>k < iv. aru' ! k = aru ! k"
    proof (intro allI impI)
      fix k assume "k < iv"
      with ih have "aru' ! k = (aru[iv := n]) ! k" by simp
      with \<open>k < iv\<close> show "aru' ! k = aru ! k" by simp
    qed
    ultimately show ?thesis using ih sv d1 by simp
  qed
qed

lemma insert_flag_off_eval:
  "insertSpendingAddressRow addr_env_ok ''f1'' 0 0 ''s1'' 0 7 None False False True 0 False (Some 9)
     [funding_row] = (Inr 0, [funding_row, spending_row])"
  by code_simp

lemma insert_flag_on_eval:
  "insertSpendingAddressRow addr_env_ok ''f1'' 0 0 ''s1'' 0 7 None False False True 0 True (Some 9)
     [funding_row] = (Inr 1, [funding_row\<lparr>ar_matching_tx_hash := ''s1''\<rparr>, spending_row])"
  by code_simp

lemma set_spending_eval:
  "SetSpendingForVinDbIDs addr_env_ok [8, 7] [funding_row] =
     (([0, 1], 1, None), [funding_row\<lparr>ar_matching_tx_hash := ''s1''\<rparr>])"
  by code_simp

lemma coinbase_vin_eval: "is_coinbase_vin addr_env_ok ([8, 7] ! 0)"
  by code_simp

text \<open>
  C4, as the code has it. \<open>insertSpendingAddressRow\<close> inserts the spending row of the vin
  and then sets \<open>matching_tx_hash\<close> on the funding rows of the outpoint only when its
  argument \<open>updateFundingRow\<close> is set. With the flag set and no error: the funding rows
  of the table are the old ones with the spending hash written into those of the
  outpoint (funding hash and output index), every funding row of the outpoint carries
  the spending hash, the count returned is the number of those rows, and the table has
  a spending row for the vin. With the flag not set and no error: the count is 0, no
  funding row is changed, and the table has a spending row for the vin.
  \<open>SetSpendingForVinDbIDs\<close>, when it commits, has applied the update of each vin whose
  previous outpoint hash is not the zero hash, in order, and nothing else; the count of a
  vin with the zero hash (a coinbase input) stays 0.
\<close>

theorem spending_row_sets_funding_rows_when_asked:
  "(insertSpendingAddressRow env f i t s si vid u c ue vm ty True bt tbl = (Inr n1, tbl1) \<longrightarrow>
      filter ar_is_funding tbl1 = map (set_matching_row s f i) (filter ar_is_funding tbl) \<and>
      (\<forall>r \<in> set tbl1. is_funding_row_of f i r \<longrightarrow> ar_matching_tx_hash r = s) \<and>
      n1 = int (length (filter (is_funding_row_of f i) tbl)) \<and>
      (\<exists>r \<in> set tbl1. \<not> ar_is_funding r \<and> ar_tx_vin_vout_row_id r = vid)) \<and>
   (insertSpendingAddressRow env f i t s si vid u c ue vm ty False bt tbl = (Inr n2, tbl2) \<longrightarrow>
      n2 = 0 \<and> filter ar_is_funding tbl2 = filter ar_is_funding tbl \<and>
      (\<exists>r \<in> set tbl2. \<not> ar_is_funding r \<and> ar_tx_vin_vout_row_id r = vid)) \<and>
   (SetSpendingForVinDbIDs env vinDbIDs tbl = ((counts, totalUpdated, None), tbl3) \<longrightarrow>
      tbl3 = foldl apply_vin tbl (spending_vins env vinDbIDs) \<and>
      length counts = length vinDbIDs \<and>
      (\<forall>k < length vinDbIDs. is_coinbase_vin env (vinDbIDs ! k) \<longrightarrow> counts ! k = 0))"
proof (intro conjI)
  show "insertSpendingAddressRow env f i t s si vid u c ue vm ty True bt tbl = (Inr n1, tbl1) \<longrightarrow>
      filter ar_is_funding tbl1 = map (set_matching_row s f i) (filter ar_is_funding tbl) \<and>
      (\<forall>r \<in> set tbl1. is_funding_row_of f i r \<longrightarrow> ar_matching_tx_hash r = s) \<and>
      n1 = int (length (filter (is_funding_row_of f i) tbl)) \<and>
      (\<exists>r \<in> set tbl1. \<not> ar_is_funding r \<and> ar_tx_vin_vout_row_id r = vid)"
  proof
    assume h: "insertSpendingAddressRow env f i t s si vid u c ue vm ty True bt tbl = (Inr n1, tbl1)"
    from insert_ok [OF h] obtain x where
        x1: "filter ar_is_funding x = filter ar_is_funding tbl"
      and x2: "\<exists>r \<in> set x. \<not> ar_is_funding r \<and> ar_tx_vin_vout_row_id r = vid"
      and x3: "tbl1 = map (set_matching_row s f i) x"
      and x4: "n1 = int (length (filter (is_funding_row_of f i) x))"
      by auto
    have a1: "filter ar_is_funding tbl1 = map (set_matching_row s f i) (filter ar_is_funding tbl)"
      using x1 x3 by (simp add: smr_filter)
    have a2: "\<forall>r \<in> set tbl1. is_funding_row_of f i r \<longrightarrow> ar_matching_tx_hash r = s"
      using x3 by (auto simp add: smr_is smr_hit)
    have a3: "n1 = int (length (filter (is_funding_row_of f i) tbl))"
      using x4 x1 funding_filter [of f i x] funding_filter [of f i tbl] by simp
    from x2 obtain r where r: "r \<in> set x" "\<not> ar_is_funding r" "ar_tx_vin_vout_row_id r = vid"
      by blast
    from r(1) x3 have "set_matching_row s f i r \<in> set tbl1" by simp
    with r(2,3) have a4: "\<exists>r \<in> set tbl1. \<not> ar_is_funding r \<and> ar_tx_vin_vout_row_id r = vid"
      by (metis smr_funding smr_row_id)
    from a1 a2 a3 a4
    show "filter ar_is_funding tbl1 = map (set_matching_row s f i) (filter ar_is_funding tbl) \<and>
      (\<forall>r \<in> set tbl1. is_funding_row_of f i r \<longrightarrow> ar_matching_tx_hash r = s) \<and>
      n1 = int (length (filter (is_funding_row_of f i) tbl)) \<and>
      (\<exists>r \<in> set tbl1. \<not> ar_is_funding r \<and> ar_tx_vin_vout_row_id r = vid)"
      by blast
  qed
  show "insertSpendingAddressRow env f i t s si vid u c ue vm ty False bt tbl = (Inr n2, tbl2) \<longrightarrow>
      n2 = 0 \<and> filter ar_is_funding tbl2 = filter ar_is_funding tbl \<and>
      (\<exists>r \<in> set tbl2. \<not> ar_is_funding r \<and> ar_tx_vin_vout_row_id r = vid)"
  proof
    assume h: "insertSpendingAddressRow env f i t s si vid u c ue vm ty False bt tbl = (Inr n2, tbl2)"
    from insert_ok [OF h]
    show "n2 = 0 \<and> filter ar_is_funding tbl2 = filter ar_is_funding tbl \<and>
      (\<exists>r \<in> set tbl2. \<not> ar_is_funding r \<and> ar_tx_vin_vout_row_id r = vid)"
      by auto
  qed
  show "SetSpendingForVinDbIDs env vinDbIDs tbl = ((counts, totalUpdated, None), tbl3) \<longrightarrow>
      tbl3 = foldl apply_vin tbl (spending_vins env vinDbIDs) \<and>
      length counts = length vinDbIDs \<and>
      (\<forall>k < length vinDbIDs. is_coinbase_vin env (vinDbIDs ! k) \<longrightarrow> counts ! k = 0)"
  proof
    assume h: "SetSpendingForVinDbIDs env vinDbIDs tbl = ((counts, totalUpdated, None), tbl3)"
    then have l: "set_spending_loop env 0 vinDbIDs (replicate (length vinDbIDs) 0) 0 tbl =
                    Inr (counts, totalUpdated, tbl3)"
      by (auto simp add: SetSpendingForVinDbIDs_def split: option.splits sum.splits prod.splits)
    note inv = set_spending_loop_inv [OF l]
    have "\<forall>k < length vinDbIDs. is_coinbase_vin env (vinDbIDs ! k) \<longrightarrow> counts ! k = 0"
    proof (intro allI impI)
      fix k assume k: "k < length vinDbIDs" and cb: "is_coinbase_vin env (vinDbIDs ! k)"
      with inv have "counts ! (0 + k) = replicate (length vinDbIDs) 0 ! (0 + k)" by blast
      with k show "counts ! k = 0" by simp
    qed
    with inv
    show "tbl3 = foldl apply_vin tbl (spending_vins env vinDbIDs) \<and>
      length counts = length vinDbIDs \<and>
      (\<forall>k < length vinDbIDs. is_coinbase_vin env (vinDbIDs ! k) \<longrightarrow> counts ! k = 0)"
      by simp
  qed
qed

text \<open>
  The theorem at the sample table: vin 7 spends output 0 of \<open>f1\<close> in \<open>s1\<close>. With the flag
  set the funding row gets \<open>s1\<close> and the count is 1; for the list of vins 8 (coinbase)
  and 7 the counts are 0 and 1.
\<close>

theorem spending_row_sets_funding_rows_when_asked_witness:
  "insertSpendingAddressRow addr_env_ok ''f1'' 0 0 ''s1'' 0 7 None False False True 0 True (Some 9)
     [funding_row] = (Inr 1, [funding_row\<lparr>ar_matching_tx_hash := ''s1''\<rparr>, spending_row]) \<and>
   filter ar_is_funding [funding_row\<lparr>ar_matching_tx_hash := ''s1''\<rparr>, spending_row] =
     map (set_matching_row ''s1'' ''f1'' 0) (filter ar_is_funding [funding_row]) \<and>
   (1 :: int) = int (length (filter (is_funding_row_of ''f1'' 0) [funding_row])) \<and>
   insertSpendingAddressRow addr_env_ok ''f1'' 0 0 ''s1'' 0 7 None False False True 0 False (Some 9)
     [funding_row] = (Inr 0, [funding_row, spending_row]) \<and>
   filter ar_is_funding [funding_row, spending_row] = filter ar_is_funding [funding_row] \<and>
   SetSpendingForVinDbIDs addr_env_ok [8, 7] [funding_row] =
     (([0, 1], 1, None), [funding_row\<lparr>ar_matching_tx_hash := ''s1''\<rparr>]) \<and>
   [funding_row\<lparr>ar_matching_tx_hash := ''s1''\<rparr>] =
     foldl apply_vin [funding_row] (spending_vins addr_env_ok [8, 7]) \<and>
   is_coinbase_vin addr_env_ok ([8, 7] ! 0) \<and> [0, 1 :: int] ! 0 = 0"
  using spending_row_sets_funding_rows_when_asked
      [where env = addr_env_ok and f = "''f1''" and i = 0 and t = 0 and s = "''s1''" and si = 0
         and vid = 7 and u = None and c = False and ue = False and vm = True and ty = 0
         and bt = "Some 9" and tbl = "[funding_row]"
         and ?n1.0 = 1 and ?tbl1.0 = "[funding_row\<lparr>ar_matching_tx_hash := ''s1''\<rparr>, spending_row]"
         and ?n2.0 = 0 and ?tbl2.0 = "[funding_row, spending_row]"
         and vinDbIDs = "[8, 7]" and counts = "[0, 1]" and totalUpdated = 1
         and ?tbl3.0 = "[funding_row\<lparr>ar_matching_tx_hash := ''s1''\<rparr>]"]
    insert_flag_on_eval insert_flag_off_eval set_spending_eval coinbase_vin_eval
  by simp

text \<open>
  C4 as the spec states it does not hold: with \<open>updateFundingRow\<close> not set, the spending
  row of vin 7 is inserted and the funding row of the outpoint keeps its empty
  \<open>matching_tx_hash\<close>; the count returned is 0.
\<close>

theorem insertSpendingAddressRow_flag_off_counterexample:
  "insertSpendingAddressRow addr_env_ok ''f1'' 0 0 ''s1'' 0 7 None False False True 0 False (Some 9)
     [funding_row] = (Inr 0, [funding_row, spending_row]) \<and>
   is_funding_row_of ''f1'' 0 funding_row \<and> ar_matching_tx_hash funding_row = [] \<and>
   \<not> ar_is_funding spending_row \<and> ar_tx_hash spending_row = ''s1'' \<and>
   ar_tx_vin_vout_row_id spending_row = 7 \<and> ar_matching_tx_hash spending_row = ''f1''"
  by code_simp

end
